theory Spec2Isabelle
  imports Complex_Main
begin

section \<open>Steering behaviours of \<^verbatim>\<open>src/main.cpp\<close>\<close>

text \<open>
  The program computes with C \<^verbatim>\<open>float\<close>. Two readings of it are used. Where a claim is
  about which branch is taken, which data is read and in which order it is written, every
  \<^verbatim>\<open>float\<close> is read as a real number, every float literal as the decimal it is written
  as, and \<^verbatim>\<open>sqrtf\<close> as \<^term>\<open>sqrt\<close>: branch structure, comparisons, loop order and the order
  of the mutations are those of the source. Where a claim bounds or fixes a magnitude, the
  rounding decides it, and the functions it is about are embedded a second time with the
  rounding of binary32 after every operation (the functions whose names end in \<open>32\<close>).
\<close>

subsection \<open>Data\<close>

text \<open>raylib's \<^verbatim>\<open>struct Vector2 { float x; float y; }\<close>.\<close>

datatype Vector2 = V2 (vx: real) (vy: real)

text \<open>The colours the program assigns to agents (the field plays no part in the motion).\<close>

datatype Color = SKYBLUE | MAROON | ORANGE

text \<open>\<^verbatim>\<open>struct Agent\<close>, lines 78-86.\<close>

record Agent =
  pos :: Vector2
  vel :: Vector2
  acc :: Vector2
  maxSpeed :: real
  maxForce :: real
  pathIndex :: int
  color :: Color

text \<open>
  Reading a \<^verbatim>\<open>std::vector\<close> with \<^verbatim>\<open>operator[]\<close> outside its range is undefined behaviour
  in the source; the model makes it a value.
\<close>

datatype error = OutOfRange

subsection \<open>Basic vector helpers (lines 7-20)\<close>

definition Length :: "Vector2 \<Rightarrow> real" where
  "Length v = sqrt (vx v * vx v + vy v * vy v)"

definition Normalize :: "Vector2 \<Rightarrow> Vector2" where
  "Normalize v = (let l = Length v in if l = 0 then V2 0 0 else V2 (vx v / l) (vy v / l))"

definition Scale :: "Vector2 \<Rightarrow> real \<Rightarrow> Vector2" where
  "Scale v s = V2 (vx v * s) (vy v * s)"

definition Add :: "Vector2 \<Rightarrow> Vector2 \<Rightarrow> Vector2" where
  "Add a b = V2 (vx a + vx b) (vy a + vy b)"

definition Sub :: "Vector2 \<Rightarrow> Vector2 \<Rightarrow> Vector2" where
  "Sub a b = V2 (vx a - vx b) (vy a - vy b)"

definition Limit :: "Vector2 \<Rightarrow> real \<Rightarrow> Vector2" where
  "Limit v m = (let l = Length v in if l > m then Scale v (m / l) else v)"

subsection \<open>Single-agent behaviours (lines 27-75)\<close>

definition Seek :: "Vector2 \<Rightarrow> Vector2 \<Rightarrow> real \<Rightarrow> Vector2" where
  "Seek p target ms = Scale (Normalize (Sub target p)) ms"

definition Flee :: "Vector2 \<Rightarrow> Vector2 \<Rightarrow> real \<Rightarrow> Vector2" where
  "Flee p target ms = Scale (Normalize (Sub p target)) ms"

definition Pursue :: "Vector2 \<Rightarrow> Vector2 \<Rightarrow> Vector2 \<Rightarrow> real \<Rightarrow> real \<Rightarrow> Vector2" where
  "Pursue p targetPos targetVel ms predictionFactor =
     (let toTarget = Sub targetPos p;
          dist = Length toTarget;
          T = dist / (ms + 0.0001) * predictionFactor;
          future = Add targetPos (Scale targetVel T)
      in Seek p future ms)"

definition Evade :: "Vector2 \<Rightarrow> Vector2 \<Rightarrow> Vector2 \<Rightarrow> real \<Rightarrow> real \<Rightarrow> Vector2" where
  "Evade p targetPos targetVel ms predictionFactor =
     (let toTarget = Sub targetPos p;
          dist = Length toTarget;
          T = dist / (ms + 0.0001) * predictionFactor;
          future = Add targetPos (Scale targetVel T)
      in Flee p future ms)"

definition Arrive :: "Vector2 \<Rightarrow> Vector2 \<Rightarrow> real \<Rightarrow> real \<Rightarrow> Vector2" where
  "Arrive p target ms slowingRadius =
     (let desired = Sub target p;
          dist = Length desired
      in if dist < 0.001 then V2 0 0
         else let desired' = Normalize desired;
                  speed = ms * (dist / slowingRadius);
                  speed' = (if speed > ms then ms else speed)
              in Scale desired' speed')"

text \<open>
  \<^verbatim>\<open>Wander\<close> draws \<^verbatim>\<open>GetRandomValue(-100, 100)\<close> and updates \<^verbatim>\<open>wanderAngle\<close> through a
  reference: the drawn integer \<open>rnd\<close> is an argument, the new angle a second result.
\<close>

definition Wander :: "Vector2 \<Rightarrow> Vector2 \<Rightarrow> real \<Rightarrow> real \<Rightarrow> int \<Rightarrow> Vector2 \<times> real" where
  "Wander position velocity ms wanderAngle rnd =
     (let circleDistance = 50;
          circleRadius = 30;
          angleChange = 0.5;
          circleCenter = Normalize velocity;
          circleCenter' = (if Length circleCenter < 0.01 then V2 0 (-1) else circleCenter);
          circleCenter'' = Scale circleCenter' circleDistance;
          wanderAngle' = wanderAngle + (real_of_int rnd / 100) * angleChange;
          displacement = V2 (cos wanderAngle' * circleRadius) (sin wanderAngle' * circleRadius);
          wanderForce = Add circleCenter'' displacement
      in (Limit wanderForce ms, wanderAngle'))"

subsection \<open>Combining behaviours (lines 179-191)\<close>

text \<open>The range-for of \<^verbatim>\<open>PrioritySteering\<close> returns from inside the loop.\<close>

fun PrioritySteering :: "Vector2 list \<Rightarrow> real \<Rightarrow> Vector2" where
  "PrioritySteering [] epsilon = V2 0 0"
| "PrioritySteering (f # forces) epsilon =
     (if Length f > epsilon then f else PrioritySteering forces epsilon)"

fun blendLoop :: "(Vector2 \<times> real) list \<Rightarrow> Vector2 \<Rightarrow> Vector2" where
  "blendLoop [] tot = tot"
| "blendLoop (p # forces) tot = blendLoop forces (Add tot (Scale (fst p) (snd p)))"

definition WeightedBlend :: "(Vector2 \<times> real) list \<Rightarrow> real \<Rightarrow> Vector2" where
  "WeightedBlend forces mf = Limit (blendLoop forces (V2 0 0)) mf"

subsection \<open>Multi-agent behaviours (lines 88-176)\<close>

definition ArriveSteer :: "Agent \<Rightarrow> Vector2 \<Rightarrow> real \<Rightarrow> Vector2" where
  "ArriveSteer a target slowingRadius =
     (let desired = Arrive (pos a) target (maxSpeed a) slowingRadius
      in Sub desired (vel a))"

definition PredictiveAvoidance :: "Agent \<Rightarrow> Agent \<Rightarrow> real \<Rightarrow> real \<Rightarrow> Vector2" where
  "PredictiveAvoidance a b lookAheadTime maxAvoidForce =
     (let futureA = Add (pos a) (Scale (vel a) lookAheadTime);
          futureB = Add (pos b) (Scale (vel b) lookAheadTime);
          diff = Sub futureA futureB;
          dist = Length diff;
          combinedRadius = 24
      in if dist < combinedRadius \<and> dist > 0.001 then
           let away = Normalize (Sub futureA futureB);
               strength = (combinedRadius - dist) / combinedRadius
           in Scale away (maxAvoidForce * (0.4 + 0.6 * strength))
         else V2 0 0)"

text \<open>
  \<^verbatim>\<open>Separation\<close> skips the element of \<^verbatim>\<open>agents\<close> whose address is that of \<^verbatim>\<open>self\<close>
  (line 112). An address inside the vector is an index: \<open>selfIdx\<close> is the index \<^verbatim>\<open>self\<close>
  refers to, \<open>self\<close> the agent read through the reference, \<open>j\<close> the index of \<open>other\<close>.
  \<open>sepStep\<close> is one pass through the loop body (lines 112-123) on the pair
  (\<^verbatim>\<open>steer\<close>, \<^verbatim>\<open>count\<close>).
\<close>

definition sepStep :: "nat \<Rightarrow> Agent \<Rightarrow> real \<Rightarrow> nat \<Rightarrow> Agent \<Rightarrow> Vector2 \<times> nat \<Rightarrow> Vector2 \<times> nat" where
  "sepStep selfIdx self separationRadius j other sc =
     (if j = selfIdx then sc
      else let diff = Sub (pos self) (pos other);
               d = Length diff
           in if d > 0 \<and> d < separationRadius then
                let away = Normalize diff;
                    factor = (separationRadius - d) / separationRadius
                in (Add (fst sc) (Scale away factor), snd sc + 1)
              else sc)"

fun sepLoop :: "nat \<Rightarrow> Agent \<Rightarrow> real \<Rightarrow> nat \<Rightarrow> Agent list \<Rightarrow> Vector2 \<times> nat \<Rightarrow> Vector2 \<times> nat" where
  "sepLoop selfIdx self separationRadius j [] sc = sc"
| "sepLoop selfIdx self separationRadius j (other # rest) sc =
     sepLoop selfIdx self separationRadius (Suc j) rest
       (sepStep selfIdx self separationRadius j other sc)"

definition Separation :: "nat \<Rightarrow> Agent \<Rightarrow> Agent list \<Rightarrow> real \<Rightarrow> real \<Rightarrow> Vector2" where
  "Separation selfIdx self agents separationRadius strength =
     (let sc = sepLoop selfIdx self separationRadius 0 agents (V2 0 0, 0);
          steer = (if snd sc > 0 then Scale (fst sc) (1 / real (snd sc)) else fst sc)
      in if Length steer < 0.0001 then V2 0 0
         else Scale (Normalize steer) strength)"

text \<open>
  \<open>obsStep\<close> is the body of the loop of \<^verbatim>\<open>ObstacleAvoidance\<close> (lines 137-151) for the
  centre \<open>c\<close> and the radius \<open>r0\<close> read at the same index. The loop runs over the indices
  of \<^verbatim>\<open>obsCenters\<close> and reads \<^verbatim>\<open>obsRadii[i]\<close>: a shorter \<^verbatim>\<open>obsRadii\<close> is read out of range.
\<close>

definition obsStep :: "Agent \<Rightarrow> Vector2 \<Rightarrow> real \<Rightarrow> Vector2 \<Rightarrow> real \<Rightarrow> Vector2 \<Rightarrow> Vector2" where
  "obsStep agent ahead avoidStrength c r0 steer =
     (let r = r0 + 8;
          dist = Length (Sub ahead c)
      in if dist < r then
           let away = Normalize (Sub ahead c);
               penetration = r - dist
           in Add steer (Scale away (penetration * avoidStrength))
         else
           let nowDist = Length (Sub (pos agent) c)
           in if nowDist < r then
                let awayNow = Normalize (Sub (pos agent) c)
                in Add steer (Scale awayNow ((r - nowDist) * avoidStrength * 0.8))
              else steer)"

fun obsLoop :: "Agent \<Rightarrow> Vector2 \<Rightarrow> real \<Rightarrow> nat \<Rightarrow> Vector2 list \<Rightarrow> real list \<Rightarrow> Vector2 \<Rightarrow> error + Vector2" where
  "obsLoop agent ahead avoidStrength i [] obsRadii steer = Inr steer"
| "obsLoop agent ahead avoidStrength i (c # cs) obsRadii steer =
     (if i < length obsRadii
      then obsLoop agent ahead avoidStrength (Suc i) cs obsRadii
             (obsStep agent ahead avoidStrength c (obsRadii ! i) steer)
      else Inl OutOfRange)"

definition ObstacleAvoidance :: "Agent \<Rightarrow> Vector2 list \<Rightarrow> real list \<Rightarrow> real \<Rightarrow> real \<Rightarrow> error + Vector2" where
  "ObstacleAvoidance agent obsCenters obsRadii lookAhead avoidStrength =
     (let heading = Normalize (vel agent);
          heading' = (if Length heading < 0.01 then V2 0 (-1) else heading);
          ahead = Add (pos agent) (Scale heading' lookAhead)
      in case obsLoop agent ahead avoidStrength 0 obsCenters obsRadii (V2 0 0) of
           Inl e \<Rightarrow> Inl e
         | Inr steer \<Rightarrow>
             if Length steer < 0.001 then Inr (V2 0 0) else Inr (Limit steer avoidStrength))"

definition WallAvoidance :: "Agent \<Rightarrow> real \<Rightarrow> real \<Rightarrow> real \<Rightarrow> real \<Rightarrow> Vector2" where
  "WallAvoidance a screenW screenH margin strength =
     (let sx = (if vx (pos a) < margin then strength * (1 - (vx (pos a) / margin))
                else if vx (pos a) > screenW - margin
                then - strength * (1 - ((screenW - vx (pos a)) / margin))
                else 0);
          sy = (if vy (pos a) < margin then strength * (1 - (vy (pos a) / margin))
                else if vy (pos a) > screenH - margin
                then - strength * (1 - ((screenH - vy (pos a)) / margin))
                else 0)
      in V2 sx sy)"

text \<open>
  \<^verbatim>\<open>PathFollowing\<close> updates \<^verbatim>\<open>outIndex\<close> through a reference: the model returns the force
  and the new index. \<^verbatim>\<open>path[outIndex]\<close> at a negative index is a read out of range.
\<close>

definition PathFollowing :: "Agent \<Rightarrow> Vector2 list \<Rightarrow> int \<Rightarrow> real \<Rightarrow> error + (Vector2 \<times> int)" where
  "PathFollowing a path outIndex waypointRadius =
     (if path = [] then Inr (V2 0 0, outIndex)
      else let outIndex1 = (if outIndex \<ge> int (length path) then 0 else outIndex)
           in if outIndex1 < 0 then Inl OutOfRange
              else let target = path ! nat outIndex1;
                       dist = Length (Sub target (pos a))
                   in if dist < waypointRadius then
                        let outIndex2 = (outIndex1 + 1) mod int (length path);
                            target' = path ! nat outIndex2
                        in Inr (Arrive (pos a) target' (maxSpeed a) (waypointRadius * 2.5), outIndex2)
                      else Inr (Arrive (pos a) target (maxSpeed a) (waypointRadius * 2.5), outIndex1))"

subsection \<open>The simulation step (\<^verbatim>\<open>main\<close>, lines 233-435)\<close>

text \<open>The constants \<^verbatim>\<open>main\<close> fixes and never changes.\<close>

definition screenW :: real where "screenW = 1800"
definition screenH :: real where "screenH = 1000"

definition path :: "Vector2 list" where
  "path = [V2 150 120, V2 400 90, V2 800 150, V2 920 300,
           V2 800 520, V2 520 620, V2 240 500, V2 100 350]"

definition obsCenters :: "Vector2 list" where
  "obsCenters = [V2 500 320, V2 300 380, V2 700 460]"

definition obsRadii :: "real list" where
  "obsRadii = [60, 45, 55]"

definition separationRadius :: real where "separationRadius = 48"
definition separationStrength :: real where "separationStrength = 0.9"
definition predictiveLookAhead :: real where "predictiveLookAhead = 0.9"
definition predictiveStrength :: real where "predictiveStrength = 0.9"
definition obstacleLookAhead :: real where "obstacleLookAhead = 70"
definition obstacleStrength :: real where "obstacleStrength = 1.2"
definition wallMargin :: real where "wallMargin = 40"
definition wallStrength :: real where "wallStrength = 1.6"
definition pathWaypointRadius :: real where "pathWaypointRadius = 22"

text \<open>The toggles the keyboard changes (lines 274-284 and 247); they are inputs of a tick.\<close>

record Toggles =
  singleAgentMode :: bool
  enablePathFollowing :: bool
  enableSeparation :: bool
  enablePredictiveAvoid :: bool
  enableObstacleAvoid :: bool
  enableWallAvoid :: bool
  usePriority :: bool
  singleCombine :: bool
  singleMode :: int

subsubsection \<open>Single-agent branch (lines 331-369)\<close>

text \<open>
  The desired velocity chosen at lines 335-353, with the new wander angle. A \<^verbatim>\<open>singleMode\<close>
  outside 1..6 leaves \<^verbatim>\<open>steering\<close> at its initial zero.
\<close>

definition singleSteering :: "Toggles \<Rightarrow> Agent \<Rightarrow> real \<Rightarrow> Vector2 \<Rightarrow> Vector2 \<Rightarrow> int \<Rightarrow> Vector2 \<times> real" where
  "singleSteering tg player wanderAngle target mouseVel rnd =
     (if singleCombine tg then
        let w = Wander (pos player) (vel player) (maxSpeed player) wanderAngle rnd;
            seekF = Seek (pos player) target (maxSpeed player)
        in (WeightedBlend [(fst w, 0.6), (seekF, 1.0)] (maxForce player * 2.0), snd w)
      else if singleMode tg = 1 then (Seek (pos player) target (maxSpeed player), wanderAngle)
      else if singleMode tg = 2 then (Flee (pos player) target (maxSpeed player), wanderAngle)
      else if singleMode tg = 3
        then (Pursue (pos player) target mouseVel (maxSpeed player) 0.8, wanderAngle)
      else if singleMode tg = 4
        then (Evade (pos player) target mouseVel (maxSpeed player) 0.8, wanderAngle)
      else if singleMode tg = 5
        then (Arrive (pos player) target (maxSpeed player) 140.0, wanderAngle)
      else if singleMode tg = 6
        then Wander (pos player) (vel player) (maxSpeed player) wanderAngle rnd
      else (V2 0 0, wanderAngle))"

text \<open>\<^verbatim>\<open>steerVec\<close> after line 357: the force that line 360 adds to the velocity.\<close>

definition singleSteerVec :: "Toggles \<Rightarrow> Agent \<Rightarrow> real \<Rightarrow> Vector2 \<Rightarrow> Vector2 \<Rightarrow> int \<Rightarrow> Vector2" where
  "singleSteerVec tg player wanderAngle target mouseVel rnd =
     (let steering = fst (singleSteering tg player wanderAngle target mouseVel rnd);
          steerVec = Sub steering (vel player)
      in Limit steerVec (maxForce player))"

text \<open>Lines 365-368, on the position just computed.\<close>

definition keepInside :: "Vector2 \<Rightarrow> Vector2" where
  "keepInside p =
     (let p1 = (if vx p < 0 then V2 0 (vy p) else p);
          p2 = (if vy p1 < 0 then V2 (vx p1) 0 else p1);
          p3 = (if vx p2 > screenW then V2 screenW (vy p2) else p2);
          p4 = (if vy p3 > screenH then V2 (vx p3) screenH else p3)
      in p4)"

definition singleStep :: "Toggles \<Rightarrow> Agent \<Rightarrow> real \<Rightarrow> Vector2 \<Rightarrow> Vector2 \<Rightarrow> int \<Rightarrow> Agent \<times> real" where
  "singleStep tg player wanderAngle target mouseVel rnd =
     (let steerVec = singleSteerVec tg player wanderAngle target mouseVel rnd;
          v1 = Add (vel player) steerVec;
          v2 = Limit v1 (maxSpeed player);
          p1 = Add (pos player) v2
      in (player\<lparr>vel := v2, pos := keepInside p1\<rparr>,
          snd (singleSteering tg player wanderAngle target mouseVel rnd)))"

subsubsection \<open>Multi-agent branch (lines 372-435)\<close>

text \<open>The inner loop of lines 390-394 for agent \<open>i\<close> (read through \<open>a\<close>), at index \<open>j\<close>.\<close>

fun predictLoop :: "nat \<Rightarrow> Agent \<Rightarrow> nat \<Rightarrow> Agent list \<Rightarrow> Vector2 \<Rightarrow> Vector2" where
  "predictLoop i a j [] steerPredict = steerPredict"
| "predictLoop i a j (b # rest) steerPredict =
     (if i = j then predictLoop i a (Suc j) rest steerPredict
      else predictLoop i a (Suc j) rest
             (Add steerPredict (PredictiveAvoidance a b predictiveLookAhead predictiveStrength)))"

text \<open>Lines 404-422: the composition, from the five component forces.\<close>

definition combineForces :: "Toggles \<Rightarrow> Agent \<Rightarrow> Vector2 \<Rightarrow> Vector2 \<Rightarrow> Vector2 \<Rightarrow> Vector2 \<Rightarrow> Vector2 \<Rightarrow> Vector2" where
  "combineForces tg a steerPath steerSep steerPredict steerObs steerWall =
     (if usePriority tg then
        PrioritySteering
          [Limit (Add (Scale steerObs 2.0) (Scale steerWall 1.8)) (maxForce a),
           Limit (Add (Scale steerPredict 1.4) (Scale steerSep 1.2)) (maxForce a),
           Limit (Scale steerPath 0.9) (maxForce a)] 0.001
      else
        WeightedBlend
          [(steerObs, 1.8), (steerWall, 1.4), (steerPredict, 1.2), (steerSep, 1.0),
           (steerPath, 0.9)] (maxForce a))"

text \<open>\<^verbatim>\<open>finalSteer\<close> after line 425: the force that line 426 adds to the velocity.\<close>

definition appliedForce :: "Agent \<Rightarrow> Vector2 \<Rightarrow> Vector2" where
  "appliedForce a finalSteer = Limit finalSteer (maxForce a)"

text \<open>Lines 431-434, on the position just computed.\<close>

definition wrapAround :: "Vector2 \<Rightarrow> Vector2" where
  "wrapAround p =
     (let p1 = (if vx p < - 60 then V2 (screenW + 60) (vy p) else p);
          p2 = (if vx p1 > screenW + 60 then V2 (- 60) (vy p1) else p1);
          p3 = (if vy p2 < - 60 then V2 (vx p2) (screenH + 60) else p2);
          p4 = (if vy p3 > screenH + 60 then V2 (vx p3) (- 60) else p3)
      in p4)"

text \<open>Lines 425-434 for the agent \<open>a\<close> and the composed force.\<close>

definition integrate :: "Agent \<Rightarrow> Vector2 \<Rightarrow> Agent" where
  "integrate a finalSteer =
     (let v1 = Add (vel a) (appliedForce a finalSteer);
          v2 = Limit v1 (maxSpeed a);
          p1 = Add (pos a) v2
      in a\<lparr>vel := v2, pos := wrapAround p1\<rparr>)"

text \<open>
  Lines 377-381: \<^verbatim>\<open>steerPath\<close> and the waypoint index \<^verbatim>\<open>PathFollowing\<close> leaves in
  \<^verbatim>\<open>a.pathIndex\<close>. Lines 397-398: \<^verbatim>\<open>steerObs\<close>, for the obstacles of \<^verbatim>\<open>main\<close>.
\<close>

definition pathComponent :: "Toggles \<Rightarrow> Agent \<Rightarrow> error + (Vector2 \<times> int)" where
  "pathComponent tg a =
     (if enablePathFollowing tg
      then (case PathFollowing a path (pathIndex a) pathWaypointRadius of
              Inl e \<Rightarrow> Inl e
            | Inr r \<Rightarrow> Inr (Sub (fst r) (vel a), snd r))
      else Inr (V2 0 0, pathIndex a))"

definition obstacleComponent :: "Toggles \<Rightarrow> Agent \<Rightarrow> error + Vector2" where
  "obstacleComponent tg a =
     (if enableObstacleAvoid tg
      then ObstacleAvoidance a obsCenters obsRadii obstacleLookAhead obstacleStrength
      else Inr (V2 0 0))"

text \<open>
  \<^verbatim>\<open>finalSteer\<close> of lines 374-422 for the agent at index \<open>i\<close> of \<open>agents\<close>, with the list
  as the pass has changed it so far. The agent is read through the reference
  \<^verbatim>\<open>a = agents[i]\<close>, so \<^verbatim>\<open>Separation\<close> and the inner loop see the list with the writes to
  \<^verbatim>\<open>a.acc\<close> and \<^verbatim>\<open>a.pathIndex\<close> already done.
\<close>

definition composedForce :: "Toggles \<Rightarrow> nat \<Rightarrow> Agent list \<Rightarrow> error + (Vector2 \<times> Agent list)" where
  "composedForce tg i agents =
     (if i < length agents then
        let a0 = (agents ! i)\<lparr>acc := V2 0 0\<rparr>
        in case pathComponent tg a0 of
             Inl e \<Rightarrow> Inl e
           | Inr sp \<Rightarrow>
               let steerPath = fst sp;
                   a = a0\<lparr>pathIndex := snd sp\<rparr>;
                   agents1 = agents[i := a];
                   steerSep = (if enableSeparation tg
                               then Separation i a agents1 separationRadius separationStrength
                               else V2 0 0);
                   steerPredict = (if enablePredictiveAvoid tg
                                   then predictLoop i a 0 agents1 (V2 0 0)
                                   else V2 0 0)
               in case obstacleComponent tg a of
                    Inl e \<Rightarrow> Inl e
                  | Inr steerObs \<Rightarrow>
                      let steerWall = (if enableWallAvoid tg
                                       then WallAvoidance a screenW screenH wallMargin wallStrength
                                       else V2 0 0)
                      in Inr (combineForces tg a steerPath steerSep steerPredict steerObs steerWall,
                              agents1)
      else Inl OutOfRange)"

text \<open>One pass through the body of the loop over the agents (lines 373-434).\<close>

definition agentStep :: "Toggles \<Rightarrow> nat \<Rightarrow> Agent list \<Rightarrow> error + Agent list" where
  "agentStep tg i agents =
     (case composedForce tg i agents of
        Inl e \<Rightarrow> Inl e
      | Inr r \<Rightarrow> Inr ((snd r)[i := integrate (snd r ! i) (fst r)]))"

text \<open>
  The loop of line 372 over the indices, in increasing order, each pass working on the list
  the pass before left. The size of \<^verbatim>\<open>agents\<close> does not change inside the loop.
\<close>

fun tickLoop :: "Toggles \<Rightarrow> nat list \<Rightarrow> Agent list \<Rightarrow> error + Agent list" where
  "tickLoop tg [] agents = Inr agents"
| "tickLoop tg (i # rest) agents =
     (case agentStep tg i agents of
        Inl e \<Rightarrow> Inl e
      | Inr agents' \<Rightarrow> tickLoop tg rest agents')"

definition multiTick :: "Toggles \<Rightarrow> Agent list \<Rightarrow> error + Agent list" where
  "multiTick tg agents = tickLoop tg [0..<length agents] agents"


text \<open>
  The agents \<^verbatim>\<open>main\<close> creates (lines 261-271): position, velocity, maximum speed, waypoint
  index and colour are drawn or chosen per agent, the rest is fixed.
\<close>

definition newAgent :: "Vector2 \<Rightarrow> Vector2 \<Rightarrow> real \<Rightarrow> int \<Rightarrow> Color \<Rightarrow> Agent" where
  "newAgent p v ms k c =
     \<lparr>pos = p, vel = v, acc = V2 0 0, maxSpeed = ms, maxForce = 0.14, pathIndex = k, color = c\<rparr>"

subsection \<open>Binary32 arithmetic\<close>

text \<open>
  A binary32 operation returns the exact result rounded to 24 significant bits, to nearest,
  ties to even. \<open>round32\<close> is that rounding on the reals. The exponent range of binary32
  is not part of the model: a result of magnitude below \<^verbatim>\<open>2^-126\<close> (subnormal) or above the
  largest finite value (infinity) is rounded like any other, so the model is the source
  wherever no intermediate result underflows or overflows. Every operation is rounded on
  its own (no fused multiply-add, no wider intermediate format), and \<^verbatim>\<open>sqrtf\<close> is correctly
  rounded.
\<close>

definition roundTiesEven :: "real \<Rightarrow> int" where
  "roundTiesEven x =
     (let f = \<lfloor>x\<rfloor>; r = x - of_int f
      in if r < 1 / 2 then f else if r > 1 / 2 then f + 1 else if even f then f else f + 1)"

definition exponent32 :: "real \<Rightarrow> int" where
  "exponent32 x = \<lfloor>log 2 \<bar>x\<bar>\<rfloor>"

definition round32 :: "real \<Rightarrow> real" where
  "round32 x =
     (if x = 0 then 0
      else sgn x * of_int (roundTiesEven (\<bar>x\<bar> / 2 powr (of_int (exponent32 x) - 23)))
                 * 2 powr (of_int (exponent32 x) - 23))"

text \<open>The unit roundoff of binary32, and the factor the clamped magnitudes stay within.\<close>

definition unit32 :: real where "unit32 = 1 / 2 ^ 24"

definition slack32 :: real where
  "slack32 = ((1 + unit32) / (1 - unit32))\<^sup>2"

text \<open>Lines 7-20 with every operation rounded.\<close>

definition Length32 :: "Vector2 \<Rightarrow> real" where
  "Length32 v = round32 (sqrt (round32 (round32 (vx v * vx v) + round32 (vy v * vy v))))"

definition Normalize32 :: "Vector2 \<Rightarrow> Vector2" where
  "Normalize32 v =
     (let l = Length32 v
      in if l = 0 then V2 0 0 else V2 (round32 (vx v / l)) (round32 (vy v / l)))"

definition Scale32 :: "Vector2 \<Rightarrow> real \<Rightarrow> Vector2" where
  "Scale32 v s = V2 (round32 (vx v * s)) (round32 (vy v * s))"

definition Add32 :: "Vector2 \<Rightarrow> Vector2 \<Rightarrow> Vector2" where
  "Add32 a b = V2 (round32 (vx a + vx b)) (round32 (vy a + vy b))"

definition Sub32 :: "Vector2 \<Rightarrow> Vector2 \<Rightarrow> Vector2" where
  "Sub32 a b = V2 (round32 (vx a - vx b)) (round32 (vy a - vy b))"

definition Limit32 :: "Vector2 \<Rightarrow> real \<Rightarrow> Vector2" where
  "Limit32 v m = (let l = Length32 v in if l > m then Scale32 v (round32 (m / l)) else v)"

text \<open>\<^verbatim>\<open>Arrive\<close>, lines 51-59, with every operation rounded; \<^verbatim>\<open>0.001f\<close> is \<open>round32 0.001\<close>.\<close>

definition Arrive32 :: "Vector2 \<Rightarrow> Vector2 \<Rightarrow> real \<Rightarrow> real \<Rightarrow> Vector2" where
  "Arrive32 p target ms slowingRadius =
     (let desired = Sub32 target p;
          dist = Length32 desired
      in if dist < round32 0.001 then V2 0 0
         else let desired' = Normalize32 desired;
                  speed = round32 (ms * round32 (dist / slowingRadius));
                  speed' = (if speed > ms then ms else speed)
              in Scale32 desired' speed')"

text \<open>
  Lines 356-368 of the single-agent branch, from the desired velocity \<^verbatim>\<open>steering\<close> that lines
  332-353 leave, and lines 425-434 of the multi-agent branch, from the \<^verbatim>\<open>finalSteer\<close> that
  lines 404-422 leave, with every operation rounded. The comparisons and assignments of the
  boundary policy are exact in binary32.
\<close>

definition steerVec32 :: "Agent \<Rightarrow> Vector2 \<Rightarrow> Vector2" where
  "steerVec32 player steering = Limit32 (Sub32 steering (vel player)) (maxForce player)"

definition singleIntegrate32 :: "Agent \<Rightarrow> Vector2 \<Rightarrow> Agent" where
  "singleIntegrate32 player steering =
     (let steerVec = steerVec32 player steering;
          v1 = Add32 (vel player) steerVec;
          v2 = Limit32 v1 (maxSpeed player);
          p1 = Add32 (pos player) v2
      in player\<lparr>vel := v2, pos := keepInside p1\<rparr>)"

definition appliedForce32 :: "Agent \<Rightarrow> Vector2 \<Rightarrow> Vector2" where
  "appliedForce32 a finalSteer = Limit32 finalSteer (maxForce a)"

definition integrate32 :: "Agent \<Rightarrow> Vector2 \<Rightarrow> Agent" where
  "integrate32 a finalSteer =
     (let v1 = Add32 (vel a) (appliedForce32 a finalSteer);
          v2 = Limit32 v1 (maxSpeed a);
          p1 = Add32 (pos a) v2
      in a\<lparr>vel := v2, pos := wrapAround p1\<rparr>)"

subsection \<open>Vector facts\<close>

lemma Length_nonneg: "0 \<le> Length v"
  by (simp add: Length_def)

lemma Length_zero: "Length (V2 0 0) = 0"
  by (simp add: Length_def)

lemma Length_axis_x: "Length (V2 a 0) = \<bar>a\<bar>"
  by (simp add: Length_def)

lemma Length_axis_y: "Length (V2 0 b) = \<bar>b\<bar>"
  by (simp add: Length_def)

lemma Length_Scale: "Length (Scale v s) = \<bar>s\<bar> * Length v"
proof -
  have "vx v * s * (vx v * s) + vy v * s * (vy v * s) = s\<^sup>2 * (vx v * vx v + vy v * vy v)"
    by (simp add: power2_eq_square algebra_simps)
  then show ?thesis
    by (simp add: Length_def Scale_def real_sqrt_mult)
qed

lemma Length_eq_0_iff: "Length v = 0 \<longleftrightarrow> v = V2 0 0"
proof (cases v)
  case (V2 a b)
  have "a * a + b * b = 0 \<longleftrightarrow> a = 0 \<and> b = 0"
    by (simp add: sum_squares_eq_zero_iff)
  then show ?thesis
    using V2 by (simp add: Length_def)
qed

lemma Normalize_eq_Scale: "Normalize v = Scale v (1 / Length v)"
  by (cases v) (simp add: Normalize_def Scale_def Length_eq_0_iff Let_def)

lemma Length_Normalize: "Length v \<noteq> 0 \<Longrightarrow> Length (Normalize v) = 1"
  using Length_nonneg [of v] by (simp add: Normalize_eq_Scale Length_Scale)

subsection \<open>Binary32 rounding facts\<close>

lemma roundTiesEven_error: "\<bar>of_int (roundTiesEven x) - x\<bar> \<le> 1 / 2"
  unfolding roundTiesEven_def Let_def by (auto simp add: abs_le_iff)

lemma roundTiesEven_of_int: "roundTiesEven (of_int n) = n"
  by (simp add: roundTiesEven_def)

lemma roundTiesEven_mono: "x \<le> y \<Longrightarrow> roundTiesEven x \<le> roundTiesEven y"
proof (rule ccontr)
  assume xy: "x \<le> y" and "\<not> roundTiesEven x \<le> roundTiesEven y"
  then have gt: "roundTiesEven y + 1 \<le> roundTiesEven x" by simp
  have ex: "\<bar>of_int (roundTiesEven x) - x\<bar> \<le> 1 / 2" by (rule roundTiesEven_error)
  have ey: "\<bar>of_int (roundTiesEven y) - y\<bar> \<le> 1 / 2" by (rule roundTiesEven_error)
  from gt have "(of_int (roundTiesEven y) :: real) + 1 \<le> of_int (roundTiesEven x)"
    by (metis of_int_1 of_int_add of_int_le_iff)
  with ex ey xy have "x = y" by (simp add: abs_le_iff) 
  with gt show False by simp
qed

lemma roundTiesEven_nonneg: "0 \<le> x \<Longrightarrow> 0 \<le> roundTiesEven x"
  using roundTiesEven_mono [of 0 x] roundTiesEven_of_int [of 0] by simp

lemma exponent32_bounds:
  assumes "x \<noteq> 0"
  shows "2 powr of_int (exponent32 x) \<le> \<bar>x\<bar>" and "\<bar>x\<bar> < 2 powr (of_int (exponent32 x) + 1)"
proof -
  have pos: "0 < \<bar>x\<bar>" using assms by simp
  have "of_int (exponent32 x) \<le> log 2 \<bar>x\<bar>" by (simp add: exponent32_def)
  then show "2 powr of_int (exponent32 x) \<le> \<bar>x\<bar>"
    using pos by (simp add: le_log_iff)
  have "log 2 \<bar>x\<bar> < of_int (exponent32 x) + 1" by (simp add: exponent32_def)
  then show "\<bar>x\<bar> < 2 powr (of_int (exponent32 x) + 1)"
    using pos by (simp add: log_less_iff)
qed

lemma exponent32_eqI:
  assumes "2 powr of_int e \<le> \<bar>x\<bar>" and "\<bar>x\<bar> < 2 powr (of_int e + 1)"
  shows "exponent32 x = e"
proof -
  have pos: "0 < \<bar>x\<bar>" using assms(1) powr_gt_zero [of 2 "of_int e"] by linarith
  have "of_int e \<le> log 2 \<bar>x\<bar>" using assms(1) pos by (simp add: le_log_iff)
  moreover have "log 2 \<bar>x\<bar> < of_int e + 1" using assms(2) pos by (simp add: log_less_iff)
  ultimately show ?thesis unfolding exponent32_def by linarith
qed

lemma exponent32_mono:
  assumes "0 < x" and "x \<le> y"
  shows "exponent32 x \<le> exponent32 y"
proof -
  have "log 2 \<bar>x\<bar> \<le> log 2 \<bar>y\<bar>" using assms by simp
  then show ?thesis unfolding exponent32_def by (rule floor_mono)
qed

lemma round32_error: "\<bar>round32 x - x\<bar> \<le> \<bar>x\<bar> / 2 ^ 24"
proof (cases "x = 0")
  case True
  then show ?thesis by (simp add: round32_def)
next
  case False
  define q :: real where "q = 2 powr (of_int (exponent32 x) - 23)"
  define t where "t = \<bar>x\<bar> / q"
  have q: "0 < q" by (simp add: q_def)
  have qx: "q * 2 ^ 23 \<le> \<bar>x\<bar>"
  proof -
    have "q * 2 ^ 23 = 2 powr of_int (exponent32 x)"
      by (simp add: q_def powr_diff powr_numeral)
    then show ?thesis using exponent32_bounds(1) [OF False] by simp
  qed
  have "round32 x = sgn x * of_int (roundTiesEven t) * q"
    using False by (simp add: round32_def q_def t_def)
  moreover have "x = sgn x * t * q" using q by (simp add: t_def sgn_mult_abs)
  ultimately have "round32 x - x = sgn x * q * (of_int (roundTiesEven t) - t)"
    by (simp add: algebra_simps)
  then have "\<bar>round32 x - x\<bar> = q * \<bar>of_int (roundTiesEven t) - t\<bar>"
    using False q by (simp add: abs_mult abs_sgn_eq)
  also have "\<dots> \<le> q * (1 / 2)"
    using roundTiesEven_error [of t] q by (intro mult_left_mono) simp_all
  also have "\<dots> \<le> \<bar>x\<bar> / 2 ^ 24" using qx by simp
  finally show ?thesis .
qed

lemma round32_zero: "round32 0 = 0"
  by (simp add: round32_def)

lemma round32_minus: "round32 (- x) = - round32 x"
  by (simp add: round32_def exponent32_def)

lemma round32_nonneg: "0 \<le> x \<Longrightarrow> 0 \<le> round32 x"
  by (simp add: round32_def roundTiesEven_nonneg)

lemma round32_positive:
  "0 < x \<Longrightarrow> round32 x = of_int (roundTiesEven (x / 2 powr (of_int (exponent32 x) - 23)))
                                * 2 powr (of_int (exponent32 x) - 23)"
  by (simp add: round32_def)

lemma round32_eval_up:
  assumes "2 ^ n \<le> x" and "x < 2 * 2 ^ n" and "n \<le> 23"
  shows "round32 x = of_int (roundTiesEven (x * 2 ^ (23 - n))) / 2 ^ (23 - n)"
proof -
  have x: "0 < x"
  proof -
    have "(0::real) < 2 ^ n" by simp
    then show ?thesis using assms(1) by linarith
  qed
  have p: "(2::real) powr of_int (int n) = 2 ^ n" by (simp add: powr_realpow)
  have p1: "(2::real) powr (of_int (int n) + 1) = 2 * 2 ^ n"
    by (simp add: powr_add powr_realpow)
  have e: "exponent32 x = int n"
    using assms(1,2) x by (intro exponent32_eqI) (simp_all only: p p1 abs_of_pos)
  have q: "(2::real) powr (of_int (int n) - 23) = 1 / 2 ^ (23 - n)"
  proof -
    have "of_int (int n) - 23 = - real (23 - n)" using assms(3) by (simp add: of_nat_diff)
    then have "(2::real) powr (of_int (int n) - 23) = 2 powr - real (23 - n)" by (simp only:)
    then show ?thesis by (simp only: powr_minus powr_realpow inverse_eq_divide)
  qed
  show ?thesis
    by (simp only: round32_positive [OF x] e q) simp
qed

lemma round32_eval_down:
  assumes "1 \<le> x * 2 ^ n" and "x * 2 ^ n < 2"
  shows "round32 x = of_int (roundTiesEven (x * 2 ^ (23 + n))) / 2 ^ (23 + n)"
proof -
  have x: "0 < x"
  proof (rule ccontr)
    assume "\<not> 0 < x"
    then have "x * 2 ^ n \<le> 0" by (simp add: mult_nonpos_nonneg)
    then show False using assms(1) by linarith
  qed
  have pn: "(0::real) < 2 ^ n" by simp
  have p: "(2::real) powr of_int (- int n) = 1 / 2 ^ n"
  proof -
    have "of_int (- int n) = - real n" by simp
    then have "(2::real) powr of_int (- int n) = 2 powr - real n" by (simp only:)
    then show ?thesis by (simp only: powr_minus powr_realpow inverse_eq_divide)
  qed
  have p1: "(2::real) powr (of_int (- int n) + 1) = 2 / 2 ^ n"
  proof -
    have "(2::real) powr (of_int (- int n) + 1) = 2 powr of_int (- int n) * 2 powr 1"
      by (rule powr_add)
    then show ?thesis by (simp only: p) simp
  qed
  have lo: "1 / 2 ^ n \<le> x" using assms(1) pn by (simp add: field_simps)
  have hi: "x < 2 / 2 ^ n" using assms(2) pn by (simp add: field_simps)
  have e: "exponent32 x = - int n"
    using lo hi x by (intro exponent32_eqI) (simp_all only: p p1 abs_of_pos)
  have q: "(2::real) powr (of_int (- int n) - 23) = 1 / 2 ^ (23 + n)"
  proof -
    have "of_int (- int n) - 23 = - real (23 + n)" by simp
    then have "(2::real) powr (of_int (- int n) - 23) = 2 powr - real (23 + n)" by (simp only:)
    then show ?thesis by (simp only: powr_minus powr_realpow inverse_eq_divide)
  qed
  show ?thesis
    by (simp only: round32_positive [OF x] e q) simp
qed

lemma round32_int_small:
  fixes k :: real
  assumes "2 ^ n \<le> k" and "k < 2 * 2 ^ n" and "n \<le> 23" and "k * 2 ^ (23 - n) = of_int j"
  shows "round32 k = k"
proof -
  have "round32 k = of_int (roundTiesEven (of_int j)) / 2 ^ (23 - n)"
    using round32_eval_up [OF assms(1,2,3)] by (simp only: assms(4))
  also have "\<dots> = k * 2 ^ (23 - n) / 2 ^ (23 - n)"
    by (simp only: roundTiesEven_of_int assms(4))
  finally show ?thesis by simp
qed

lemma round32_one: "round32 1 = 1"
  using round32_eval_up [of 0 1] by (simp add: roundTiesEven_def)

lemma round32_bracket:
  assumes "0 < x"
  shows "2 powr of_int (exponent32 x) \<le> round32 x"
    and "round32 x \<le> 2 powr (of_int (exponent32 x) + 1)"
proof -
  define e where "e = exponent32 x"
  define q :: real where "q = 2 powr (of_int e - 23)"
  define t where "t = x / q"
  have q: "0 < q" by (simp add: q_def)
  have x0: "x \<noteq> 0" using assms by simp
  have lo: "q * 2 ^ 23 = 2 powr of_int e"
    by (simp add: q_def powr_diff powr_numeral)
  have hi: "q * 2 ^ 24 = 2 powr (of_int e + 1)"
    by (simp add: q_def powr_diff powr_add powr_numeral)
  have r: "round32 x = of_int (roundTiesEven t) * q"
    using assms by (simp add: round32_positive q_def t_def e_def)
  have "2 powr of_int e \<le> x" "x < 2 powr (of_int e + 1)"
    using exponent32_bounds [OF x0] assms by (simp_all add: e_def)
  then have t: "2 ^ 23 \<le> t" "t \<le> 2 ^ 24"
    using q lo hi by (simp_all add: t_def pos_le_divide_eq pos_divide_le_eq mult.commute)
  have "roundTiesEven (of_int (2 ^ 23)) \<le> roundTiesEven t"
    using t(1) by (intro roundTiesEven_mono) simp
  then have a: "(2 ^ 23 :: real) \<le> of_int (roundTiesEven t)"
    by (simp only: roundTiesEven_of_int) (metis of_int_le_iff of_int_numeral of_int_power)
  have "roundTiesEven t \<le> roundTiesEven (of_int (2 ^ 24))"
    using t(2) by (intro roundTiesEven_mono) simp
  then have b: "of_int (roundTiesEven t) \<le> (2 ^ 24 :: real)"
    by (simp only: roundTiesEven_of_int) (metis of_int_le_iff of_int_numeral of_int_power)
  have "q * 2 ^ 23 \<le> q * of_int (roundTiesEven t)" using a q by (intro mult_left_mono) simp_all
  then show "2 powr of_int (exponent32 x) \<le> round32 x"
    by (simp only: lo r e_def [symmetric] mult.commute)
  have "q * of_int (roundTiesEven t) \<le> q * 2 ^ 24" using b q by (intro mult_left_mono) simp_all
  then show "round32 x \<le> 2 powr (of_int (exponent32 x) + 1)"
    by (simp only: hi r e_def [symmetric] mult.commute)
qed

lemma round32_mono_pos:
  assumes "0 < x" and "x \<le> y"
  shows "round32 x \<le> round32 y"
proof (cases "exponent32 x = exponent32 y")
  case True
  have y: "0 < y" using assms by linarith
  define q :: real where "q = 2 powr (of_int (exponent32 y) - 23)"
  have q: "0 < q" by (simp add: q_def)
  have "x / q \<le> y / q" using assms(2) q by (simp add: divide_right_mono)
  then have "roundTiesEven (x / q) \<le> roundTiesEven (y / q)" by (rule roundTiesEven_mono)
  then have "(of_int (roundTiesEven (x / q)) :: real) \<le> of_int (roundTiesEven (y / q))" by simp
  then have "of_int (roundTiesEven (x / q)) * q \<le> of_int (roundTiesEven (y / q)) * q"
    using q by (intro mult_right_mono) simp_all
  then show ?thesis
    using assms(1) y True by (simp add: round32_positive q_def)
next
  case False
  have y: "0 < y" using assms by linarith
  from False exponent32_mono [OF assms] have "exponent32 x + 1 \<le> exponent32 y" by simp
  then have "(of_int (exponent32 x) :: real) + 1 \<le> of_int (exponent32 y)"
    by (metis of_int_1 of_int_add of_int_le_iff)
  then have "(2::real) powr (of_int (exponent32 x) + 1) \<le> 2 powr of_int (exponent32 y)"
    by simp
  then show ?thesis
    using round32_bracket(2) [OF assms(1)] round32_bracket(1) [OF y] by linarith
qed

lemma round32_mono: "x \<le> y \<Longrightarrow> round32 x \<le> round32 y"
proof -
  assume xy: "x \<le> y"
  consider "0 < x" | "x \<le> 0" "0 \<le> y" | "y < 0" by linarith
  then show ?thesis
  proof cases
    case 1
    then show ?thesis using xy by (rule round32_mono_pos)
  next
    case 2
    have "round32 x \<le> 0" using 2(1) round32_nonneg [of "- x"] by (simp add: round32_minus)
    moreover have "0 \<le> round32 y" using 2(2) by (rule round32_nonneg)
    ultimately show ?thesis by linarith
  next
    case 3
    then have "0 < - y" "- y \<le> - x" using xy by simp_all
    then have "round32 (- y) \<le> round32 (- x)" by (rule round32_mono_pos)
    then show ?thesis by (simp add: round32_minus)
  qed
qed

lemma unit32_range: "0 < unit32" "unit32 < 1"
  by (simp_all add: unit32_def)

lemma round32_upper: "\<bar>round32 x\<bar> \<le> \<bar>x\<bar> * (1 + unit32)"
proof -
  have "\<bar>round32 x\<bar> \<le> \<bar>x\<bar> + \<bar>round32 x - x\<bar>" by linarith
  also have "\<dots> \<le> \<bar>x\<bar> + \<bar>x\<bar> / 2 ^ 24" using round32_error [of x] by linarith
  also have "\<dots> = \<bar>x\<bar> * (1 + unit32)" by (simp add: unit32_def distrib_left)
  finally show ?thesis .
qed

lemma round32_lower: "\<bar>x\<bar> * (1 - unit32) \<le> \<bar>round32 x\<bar>"
proof -
  have "\<bar>x\<bar> * (1 - unit32) = \<bar>x\<bar> - \<bar>x\<bar> / 2 ^ 24"
    by (simp add: unit32_def right_diff_distrib)
  also have "\<dots> \<le> \<bar>x\<bar> - \<bar>round32 x - x\<bar>" using round32_error [of x] by linarith
  also have "\<dots> \<le> \<bar>round32 x\<bar>" by linarith
  finally show ?thesis .
qed

lemma round32_upper_nonneg: "0 \<le> x \<Longrightarrow> round32 x \<le> x * (1 + unit32)"
  using round32_upper [of x] round32_nonneg [of x] by simp

lemma round32_lower_nonneg: "0 \<le> x \<Longrightarrow> x * (1 - unit32) \<le> round32 x"
  using round32_lower [of x] round32_nonneg [of x] by simp

lemma slack32_bounds: "1 \<le> slack32" "slack32 \<le> 1 + 1 / 2 ^ 21"
  by (simp_all add: slack32_def unit32_def power2_eq_square)

lemma Length32_nonneg: "0 \<le> Length32 v"
  unfolding Length32_def
  by (intro round32_nonneg real_sqrt_ge_zero add_nonneg_nonneg) simp_all

lemma Length32_upper: "Length32 v \<le> Length v * (1 + unit32)\<^sup>2"
proof -
  let ?u = unit32
  let ?p = "round32 (vx v * vx v)" and ?q = "round32 (vy v * vy v)"
  let ?S = "vx v * vx v + vy v * vy v"
  have u: "0 < 1 + ?u" using unit32_range by simp
  have p: "0 \<le> ?p" "?p \<le> vx v * vx v * (1 + ?u)"
    by (simp_all add: round32_nonneg round32_upper_nonneg)
  have q: "0 \<le> ?q" "?q \<le> vy v * vy v * (1 + ?u)"
    by (simp_all add: round32_nonneg round32_upper_nonneg)
  have pq: "?p + ?q \<le> ?S * (1 + ?u)" using p q by (simp add: algebra_simps)
  have "round32 (?p + ?q) \<le> (?p + ?q) * (1 + ?u)"
    using p q by (intro round32_upper_nonneg) simp
  also have "\<dots> \<le> ?S * (1 + ?u) * (1 + ?u)"
    using pq u by (intro mult_right_mono) simp_all
  finally have s: "round32 (?p + ?q) \<le> ?S * (1 + ?u)\<^sup>2"
    by (simp add: power2_eq_square algebra_simps)
  have sn: "0 \<le> round32 (?p + ?q)" using p q by (intro round32_nonneg) simp
  have "sqrt (round32 (?p + ?q)) \<le> sqrt (?S * (1 + ?u)\<^sup>2)"
    using s by simp
  also have "\<dots> = Length v * (1 + ?u)"
    using u by (simp add: real_sqrt_mult Length_def)
  finally have r: "sqrt (round32 (?p + ?q)) \<le> Length v * (1 + ?u)" .
  have "Length32 v \<le> sqrt (round32 (?p + ?q)) * (1 + ?u)"
    unfolding Length32_def using sn by (intro round32_upper_nonneg) simp
  also have "\<dots> \<le> Length v * (1 + ?u) * (1 + ?u)"
    using r u by (intro mult_right_mono) simp_all
  finally show ?thesis by (simp add: power2_eq_square algebra_simps)
qed

lemma Length32_lower: "Length v * (1 - unit32)\<^sup>2 \<le> Length32 v"
proof -
  let ?u = unit32
  let ?p = "round32 (vx v * vx v)" and ?q = "round32 (vy v * vy v)"
  let ?S = "vx v * vx v + vy v * vy v"
  have u: "0 < 1 - ?u" using unit32_range by simp
  have p: "0 \<le> ?p" "vx v * vx v * (1 - ?u) \<le> ?p"
    by (simp_all add: round32_nonneg round32_lower_nonneg)
  have q: "0 \<le> ?q" "vy v * vy v * (1 - ?u) \<le> ?q"
    by (simp_all add: round32_nonneg round32_lower_nonneg)
  have pq: "?S * (1 - ?u) \<le> ?p + ?q" using p q by (simp add: algebra_simps)
  have "?S * (1 - ?u) * (1 - ?u) \<le> (?p + ?q) * (1 - ?u)"
    using pq u by (intro mult_right_mono) simp_all
  also have "\<dots> \<le> round32 (?p + ?q)"
    using p q by (intro round32_lower_nonneg) simp
  finally have s: "?S * (1 - ?u)\<^sup>2 \<le> round32 (?p + ?q)"
    by (simp add: power2_eq_square algebra_simps)
  have "Length v * (1 - ?u) = sqrt (?S * (1 - ?u)\<^sup>2)"
    using u by (simp add: real_sqrt_mult Length_def)
  also have "\<dots> \<le> sqrt (round32 (?p + ?q))"
    using s by simp
  finally have r: "Length v * (1 - ?u) \<le> sqrt (round32 (?p + ?q))" .
  have "Length v * (1 - ?u) * (1 - ?u) \<le> sqrt (round32 (?p + ?q)) * (1 - ?u)"
    using r u by (intro mult_right_mono) simp_all
  also have "\<dots> \<le> Length32 v"
  proof -
    have "0 \<le> round32 (?p + ?q)" using p q by (intro round32_nonneg) simp
    then show ?thesis unfolding Length32_def by (intro round32_lower_nonneg) simp
  qed
  finally show ?thesis by (simp add: power2_eq_square algebra_simps)
qed

lemma Length_le_Length32: "Length v \<le> Length32 v / (1 - unit32)\<^sup>2"
proof -
  have "0 < (1 - unit32)\<^sup>2" using unit32_range by simp
  then show ?thesis using Length32_lower [of v] by (simp add: pos_le_divide_eq)
qed

lemma Length32_le_Length: "Length32 v / (1 + unit32)\<^sup>2 \<le> Length v"
proof -
  have "0 < (1 + unit32)\<^sup>2" using unit32_range by simp
  then show ?thesis using Length32_upper [of v] by (simp add: pos_divide_le_eq)
qed

lemma square_le_scaled:
  fixes a k x :: real
  assumes "\<bar>a\<bar> \<le> k * \<bar>x\<bar>"
  shows "a * a \<le> k * k * (x * x)"
proof -
  have nn: "0 \<le> k * \<bar>x\<bar>" using assms abs_ge_zero [of a] by linarith
  have "\<bar>a\<bar> * \<bar>a\<bar> \<le> (k * \<bar>x\<bar>) * (k * \<bar>x\<bar>)"
    by (rule mult_mono) (use assms nn in simp_all)
  moreover have "\<bar>a\<bar> * \<bar>a\<bar> = a * a" by simp
  moreover have "(k * \<bar>x\<bar>) * (k * \<bar>x\<bar>) = k * k * (\<bar>x\<bar> * \<bar>x\<bar>)" by (simp add: algebra_simps)
  moreover have "\<bar>x\<bar> * \<bar>x\<bar> = x * x" by simp
  ultimately show ?thesis by simp
qed

lemma square_ge_scaled:
  fixes a k x :: real
  assumes "k * \<bar>x\<bar> \<le> \<bar>a\<bar>" and "0 \<le> k"
  shows "k * k * (x * x) \<le> a * a"
proof -
  have "(k * \<bar>x\<bar>) * (k * \<bar>x\<bar>) \<le> \<bar>a\<bar> * \<bar>a\<bar>"
    by (rule mult_mono) (use assms in simp_all)
  moreover have "\<bar>a\<bar> * \<bar>a\<bar> = a * a" by simp
  moreover have "(k * \<bar>x\<bar>) * (k * \<bar>x\<bar>) = k * k * (\<bar>x\<bar> * \<bar>x\<bar>)" by (simp add: algebra_simps)
  moreover have "\<bar>x\<bar> * \<bar>x\<bar> = x * x" by simp
  ultimately show ?thesis by simp
qed

lemma sqrt_scaled: "0 \<le> k \<Longrightarrow> sqrt (k * k * s) = k * sqrt s"
  by (simp add: real_sqrt_mult)

lemma Length_le_scaled:
  assumes "\<bar>a\<bar> \<le> k * \<bar>x\<bar>" and "\<bar>b\<bar> \<le> k * \<bar>y\<bar>" and "0 \<le> k"
  shows "Length (V2 a b) \<le> k * Length (V2 x y)"
proof -
  have "a * a + b * b \<le> k * k * (x * x) + k * k * (y * y)"
    using square_le_scaled [OF assms(1)] square_le_scaled [OF assms(2)] by (rule add_mono)
  then have "a * a + b * b \<le> k * k * (x * x + y * y)" by (simp only: distrib_left)
  then have "sqrt (a * a + b * b) \<le> sqrt (k * k * (x * x + y * y))"
    by (simp only: real_sqrt_le_iff)
  then show ?thesis using assms(3) by (simp only: sqrt_scaled Length_def Vector2.sel)
qed

lemma Length_ge_scaled:
  assumes "k * \<bar>x\<bar> \<le> \<bar>a\<bar>" and "k * \<bar>y\<bar> \<le> \<bar>b\<bar>" and "0 \<le> k"
  shows "k * Length (V2 x y) \<le> Length (V2 a b)"
proof -
  have "k * k * (x * x) + k * k * (y * y) \<le> a * a + b * b"
    using square_ge_scaled [OF assms(1,3)] square_ge_scaled [OF assms(2,3)] by (rule add_mono)
  then have "k * k * (x * x + y * y) \<le> a * a + b * b" by (simp only: distrib_left)
  then have "sqrt (k * k * (x * x + y * y)) \<le> sqrt (a * a + b * b)"
    by (simp only: real_sqrt_le_iff)
  then show ?thesis using assms(3) by (simp only: sqrt_scaled Length_def Vector2.sel)
qed

lemma Scale32_upper: "Length (Scale32 v c) \<le> \<bar>c\<bar> * (1 + unit32) * Length v"
proof (cases v)
  case (V2 x y)
  have k: "0 \<le> \<bar>c\<bar> * (1 + unit32)" using unit32_range by simp
  have a: "\<bar>round32 (x * c)\<bar> \<le> \<bar>c\<bar> * (1 + unit32) * \<bar>x\<bar>"
    using round32_upper [of "x * c"] by (simp add: abs_mult mult_ac)
  have b: "\<bar>round32 (y * c)\<bar> \<le> \<bar>c\<bar> * (1 + unit32) * \<bar>y\<bar>"
    using round32_upper [of "y * c"] by (simp add: abs_mult mult_ac)
  show ?thesis
    using Length_le_scaled [OF a b k] by (simp add: V2 Scale32_def)
qed

lemma Scale32_lower: "\<bar>c\<bar> * (1 - unit32) * Length v \<le> Length (Scale32 v c)"
proof (cases v)
  case (V2 x y)
  have k: "0 \<le> \<bar>c\<bar> * (1 - unit32)" using unit32_range by simp
  have a: "\<bar>c\<bar> * (1 - unit32) * \<bar>x\<bar> \<le> \<bar>round32 (x * c)\<bar>"
    using round32_lower [of "x * c"] by (simp add: abs_mult mult_ac)
  have b: "\<bar>c\<bar> * (1 - unit32) * \<bar>y\<bar> \<le> \<bar>round32 (y * c)\<bar>"
    using round32_lower [of "y * c"] by (simp add: abs_mult mult_ac)
  show ?thesis
    using Length_ge_scaled [OF a b k] by (simp add: V2 Scale32_def)
qed

lemma Limit32_bound:
  assumes m: "0 \<le> m"
  shows "Length (Limit32 v m) \<le> m * slack32"
proof -
  let ?u = unit32
  let ?l = "Length32 v"
  have up: "0 < 1 + ?u" and lo: "0 < 1 - ?u" using unit32_range by simp_all
  have lo2: "0 < (1 - ?u)\<^sup>2" using lo by simp
  have slack: "slack32 = (1 + ?u)\<^sup>2 / (1 - ?u)\<^sup>2"
    by (simp add: slack32_def power_divide)
  show ?thesis
  proof (cases "?l > m")
    case True
    then have l: "0 < ?l" using m by linarith
    let ?c = "round32 (m / ?l)"
    have c0: "0 \<le> ?c" using m l by (intro round32_nonneg) simp
    have c1: "?c \<le> m / ?l * (1 + ?u)" using m l by (intro round32_upper_nonneg) simp
    have "Length (Scale32 v ?c) \<le> \<bar>?c\<bar> * (1 + ?u) * Length v" by (rule Scale32_upper)
    also have "\<dots> = ?c * (1 + ?u) * Length v" using c0 by simp
    also have "\<dots> \<le> (m / ?l * (1 + ?u)) * (1 + ?u) * Length v"
      using c1 up Length_nonneg [of v] by (intro mult_right_mono) simp_all
    also have "\<dots> \<le> (m / ?l * (1 + ?u)) * (1 + ?u) * (?l / (1 - ?u)\<^sup>2)"
      using Length_le_Length32 [of v] m l up by (intro mult_left_mono) simp_all
    also have "\<dots> = m * slack32"
      using l by (simp add: slack power2_eq_square)
    finally show ?thesis using True by (simp add: Limit32_def)
  next
    case False
    then have le: "?l \<le> m" by simp
    have "Length v \<le> ?l / (1 - ?u)\<^sup>2" by (rule Length_le_Length32)
    also have "\<dots> \<le> m / (1 - ?u)\<^sup>2" using le lo2 by (simp add: divide_right_mono)
    also have "\<dots> \<le> m * slack32"
    proof -
      have "1 \<le> (1 + ?u)\<^sup>2" using unit32_range by (simp add: power2_eq_square algebra_simps)
      then have "m * 1 \<le> m * (1 + ?u)\<^sup>2" using m by (intro mult_left_mono) simp_all
      then have "m * 1 / (1 - ?u)\<^sup>2 \<le> m * (1 + ?u)\<^sup>2 / (1 - ?u)\<^sup>2"
        using lo2 by (intro divide_right_mono) simp_all
      then show ?thesis by (simp add: slack)
    qed
    finally show ?thesis using False by (simp add: Limit32_def)
  qed
qed

lemma Normalize32_upper:
  assumes "Length32 v \<noteq> 0"
  shows "Length (Normalize32 v) \<le> (1 + unit32) / (1 - unit32)\<^sup>2"
proof (cases v)
  case (V2 x y)
  let ?l = "Length32 v"
  have l: "0 < ?l" using assms Length32_nonneg [of v] by linarith
  have lo2: "0 < (1 - unit32)\<^sup>2" using unit32_range by simp
  let ?k = "(1 + unit32) / ?l"
  have k: "0 \<le> ?k" using l unit32_range by simp
  have a: "\<bar>round32 (x / ?l)\<bar> \<le> ?k * \<bar>x\<bar>"
    using round32_upper [of "x / ?l"] l by (simp add: abs_mult mult_ac)
  have b: "\<bar>round32 (y / ?l)\<bar> \<le> ?k * \<bar>y\<bar>"
    using round32_upper [of "y / ?l"] l by (simp add: abs_mult mult_ac)
  have "Length (Normalize32 v) \<le> ?k * Length v"
    using Length_le_scaled [OF a b k] assms by (simp add: V2 Normalize32_def Let_def)
  also have "\<dots> \<le> ?k * (?l / (1 - unit32)\<^sup>2)"
    using Length_le_Length32 [of v] k by (intro mult_left_mono) simp_all
  also have "\<dots> = (1 + unit32) / (1 - unit32)\<^sup>2" using l by simp
  finally show ?thesis .
qed

lemma Normalize32_lower:
  assumes "Length32 v \<noteq> 0"
  shows "(1 - unit32) / (1 + unit32)\<^sup>2 \<le> Length (Normalize32 v)"
proof (cases v)
  case (V2 x y)
  let ?l = "Length32 v"
  have l: "0 < ?l" using assms Length32_nonneg [of v] by linarith
  let ?k = "(1 - unit32) / ?l"
  have k: "0 \<le> ?k" using l unit32_range by simp
  have a: "?k * \<bar>x\<bar> \<le> \<bar>round32 (x / ?l)\<bar>"
    using round32_lower [of "x / ?l"] l by (simp add: abs_mult mult_ac)
  have b: "?k * \<bar>y\<bar> \<le> \<bar>round32 (y / ?l)\<bar>"
    using round32_lower [of "y / ?l"] l by (simp add: abs_mult mult_ac)
  have "(1 - unit32) / (1 + unit32)\<^sup>2 = ?k * (?l / (1 + unit32)\<^sup>2)" using l by simp
  also have "\<dots> \<le> ?k * Length v"
    using Length32_le_Length [of v] k by (intro mult_left_mono) simp_all
  also have "\<dots> \<le> Length (Normalize32 v)"
    using Length_ge_scaled [OF a b k] assms by (simp add: V2 Normalize32_def Let_def)
  finally show ?thesis .
qed

lemma Scale32_Normalize32_upper:
  assumes "Length32 v \<noteq> 0" and "0 \<le> s"
  shows "Length (Scale32 (Normalize32 v) s) \<le> s * slack32"
proof -
  have up: "0 < 1 + unit32" using unit32_range by simp
  have "Length (Scale32 (Normalize32 v) s) \<le> \<bar>s\<bar> * (1 + unit32) * Length (Normalize32 v)"
    by (rule Scale32_upper)
  also have "\<dots> \<le> \<bar>s\<bar> * (1 + unit32) * ((1 + unit32) / (1 - unit32)\<^sup>2)"
    using Normalize32_upper [OF assms(1)] up by (intro mult_left_mono) simp_all
  also have "\<dots> = s * slack32"
    using assms(2) by (simp add: slack32_def power_divide power2_eq_square)
  finally show ?thesis .
qed

lemma Scale32_Normalize32_lower:
  assumes "Length32 v \<noteq> 0" and "0 \<le> s"
  shows "s / slack32 \<le> Length (Scale32 (Normalize32 v) s)"
proof -
  have lo: "0 < 1 - unit32" using unit32_range by simp
  have "s / slack32 = \<bar>s\<bar> * (1 - unit32) * ((1 - unit32) / (1 + unit32)\<^sup>2)"
    using assms(2) by (simp add: slack32_def power_divide power2_eq_square)
  also have "\<dots> \<le> \<bar>s\<bar> * (1 - unit32) * Length (Normalize32 v)"
    using Normalize32_lower [OF assms(1)] lo by (intro mult_left_mono) simp_all
  also have "\<dots> \<le> Length (Scale32 (Normalize32 v) s)" by (rule Scale32_lower)
  finally show ?thesis .
qed

lemma component_sign:
  assumes "0 < l" and "0 \<le> s"
  shows "0 \<le> round32 (round32 (x / l) * s) * x"
proof (cases "0 \<le> x")
  case True
  then have "0 \<le> round32 (x / l)" using assms(1) by (intro round32_nonneg) simp
  then have "0 \<le> round32 (round32 (x / l) * s)" using assms(2) by (intro round32_nonneg) simp
  then show ?thesis using True by simp
next
  case False
  then have "x / l \<le> 0" using assms(1) by (simp add: divide_le_0_iff)
  then have "0 \<le> round32 (- (x / l))" by (intro round32_nonneg) simp
  then have "round32 (x / l) \<le> 0" by (simp add: round32_minus)
  then have "0 \<le> - (round32 (x / l) * s)" using assms(2) by (simp add: mult_nonpos_nonneg)
  then have "0 \<le> round32 (- (round32 (x / l) * s))" by (rule round32_nonneg)
  then have "round32 (round32 (x / l) * s) \<le> 0" by (simp add: round32_minus)
  then show ?thesis using False by (simp add: mult_nonpos_nonpos)
qed

lemma Length32_axis:
  assumes "round32 (a * a) = s" and "round32 s = s" and "sqrt s = b" and "round32 b = b"
  shows "Length32 (V2 a 0) = b"
  using assms by (simp add: Length32_def round32_zero)

lemma Limit32_zero: "0 \<le> m \<Longrightarrow> Limit32 (V2 0 0) m = V2 0 0"
  by (simp add: Limit32_def Length32_def round32_zero)

lemma Limit32_axis:
  assumes "Length32 (V2 a 0) = l" and "m < l"
  shows "Limit32 (V2 a 0) m = V2 (round32 (a * round32 (m / l))) 0"
  using assms by (simp add: Limit32_def Scale32_def round32_zero)

lemma Add32_zero_right: "round32 a = a \<Longrightarrow> Add32 (V2 a 0) (V2 0 0) = V2 a 0"
  by (simp add: Add32_def round32_zero)

lemma Length_gt_3: "9 < a * a + b * b \<Longrightarrow> 3 < Length (V2 a b)"
proof -
  assume "9 < a * a + b * b"
  then have "3\<^sup>2 < a * a + b * b" by simp
  then have "3 < sqrt (a * a + b * b)" by (rule real_less_rsqrt)
  then show ?thesis by (simp add: Length_def)
qed

subsection \<open>Priority selection\<close>

text \<open>
  C7. \<^verbatim>\<open>PrioritySteering\<close> returns the first force of the list whose magnitude exceeds
  epsilon, whatever the forces after it are, and the zero vector when no force of the list
  (the empty list included) has a magnitude above epsilon.
\<close>

theorem PrioritySteering_first:
  "((\<forall>f \<in> set pre. Length f \<le> epsilon) \<and> Length a > epsilon
      \<longrightarrow> PrioritySteering (pre @ a # post) epsilon = a) \<and>
   ((\<forall>f \<in> set forces. Length f \<le> epsilon)
      \<longrightarrow> PrioritySteering forces epsilon = V2 0 0)"
proof
  show "(\<forall>f \<in> set pre. Length f \<le> epsilon) \<and> Length a > epsilon
      \<longrightarrow> PrioritySteering (pre @ a # post) epsilon = a"
    by (induction pre) simp_all
  show "(\<forall>f \<in> set forces. Length f \<le> epsilon)
      \<longrightarrow> PrioritySteering forces epsilon = V2 0 0"
    by (induction forces) simp_all
qed

theorem PrioritySteering_first_witness:
  "PrioritySteering ([V2 0 0] @ V2 3 0 # [V2 0 50]) 0.001 = V2 3 0 \<and>
   PrioritySteering [V2 0 0, V2 0.001 0] 0.001 = V2 0 0 \<and>
   PrioritySteering [] 0.001 = V2 0 0"
  using PrioritySteering_first [of "[V2 0 0]" "0.001" "V2 3 0" "[V2 0 50]" "[V2 0 0, V2 0.001 0]"]
  by (simp add: Length_axis_x)

subsection \<open>Arrive\<close>

lemma round32_epsilon: "round32 (1 / 1000) = 8589935 / 2 ^ 33"
  using round32_eval_down [of "1 / 1000" 10] by (simp add: roundTiesEven_def)

lemma round32_epsilon_pos: "0 < round32 0.001"
  by (simp add: round32_epsilon)

lemma Length32_far_example: "Length32 (Sub32 (V2 84 112) (V2 0 0)) = 140"
proof -
  have r84: "round32 84 = 84" by (rule round32_int_small [of 6 _ "84 * 2 ^ 17"]) simp_all
  have r112: "round32 112 = 112" by (rule round32_int_small [of 6 _ "112 * 2 ^ 17"]) simp_all
  have r7056: "round32 7056 = 7056" by (rule round32_int_small [of 12 _ "7056 * 2 ^ 11"]) simp_all
  have r12544: "round32 12544 = 12544"
    by (rule round32_int_small [of 13 _ "12544 * 2 ^ 10"]) simp_all
  have r19600: "round32 19600 = 19600"
    by (rule round32_int_small [of 14 _ "19600 * 2 ^ 9"]) simp_all
  have r140: "round32 140 = 140" by (rule round32_int_small [of 7 _ "140 * 2 ^ 16"]) simp_all
  have sq: "sqrt 19600 = 140" by (rule real_sqrt_unique) simp_all
  show ?thesis
    by (simp add: Sub32_def Length32_def r84 r112 r7056 r12544 r19600 sq r140)
qed

lemma Length32_near_example: "Length32 (Sub32 (V2 (1 / 2048) 0) (V2 0 0)) = 1 / 2048"
proof -
  have rs: "round32 (1 / 2048) = 1 / 2048"
    using round32_eval_down [of "1 / 2048" 11] by (simp add: roundTiesEven_def)
  have rss: "round32 (1 / 4194304) = 1 / 4194304"
    using round32_eval_down [of "1 / 4194304" 22] by (simp add: roundTiesEven_def)
  have sqs: "sqrt (1 / 4194304) = 1 / 2048"
    by (rule real_sqrt_unique) (simp_all add: power2_eq_square)
  have des: "Sub32 (V2 (1 / 2048) 0) (V2 0 0) = V2 (1 / 2048) 0"
    by (simp add: Sub32_def rs round32_zero)
  show ?thesis
    unfolding des by (rule Length32_axis [where s = "1 / 4194304"]) (simp_all add: rss sqs rs)
qed

lemma round32_three: "round32 3 = 3"
  by (rule round32_int_small [of 1 _ "3 * 2 ^ 22"]) simp_all

text \<open>
  C6, as the claim states it, fails twice. In binary32 the vector returned for the target
  \<open>(84, 112)\<close> from the origin, at distance 140 with slowing radius 140 and maximum speed
  3, is \<open>(15099495 / 2\<^sup>2\<^sup>3, 10066330 / 2\<^sup>2\<^sup>2)\<close>, of magnitude above 3: neither exactly \<open>s\<close>
  nor at most \<open>s\<close>. And with a slowing radius below the cut-off 0.001 a target at a distance
  of at least the slowing radius, but below the cut-off, gives the zero vector.
\<close>

theorem Arrive32_counterexample:
  "(0::real) < 3 \<and> (0::real) < 140 \<and>
   140 \<le> Length32 (Sub32 (V2 84 112) (V2 0 0)) \<and>
   Arrive32 (V2 0 0) (V2 84 112) 3 140 = V2 (15099495 / 2 ^ 23) (10066330 / 2 ^ 22) \<and>
   3 < Length (Arrive32 (V2 0 0) (V2 84 112) 3 140) \<and>
   (0::real) < 1 / 4096 \<and>
   1 / 4096 \<le> Length32 (Sub32 (V2 (1 / 2048) 0) (V2 0 0)) \<and>
   Arrive32 (V2 0 0) (V2 (1 / 2048) 0) 3 (1 / 4096) = V2 0 0"
proof -
  define N1 :: real where "N1 = 10066330 / 2 ^ 24"
  define N2 :: real where "N2 = 13421773 / 2 ^ 24"
  define X :: real where "X = 15099495 / 2 ^ 23"
  define Y :: real where "Y = 10066330 / 2 ^ 22"
  have des: "Sub32 (V2 84 112) (V2 0 0) = V2 84 112"
  proof -
    have "round32 84 = 84" by (rule round32_int_small [of 6 _ "84 * 2 ^ 17"]) simp_all
    moreover have "round32 112 = 112"
      by (rule round32_int_small [of 6 _ "112 * 2 ^ 17"]) simp_all
    ultimately show ?thesis by (simp add: Sub32_def)
  qed
  have len: "Length32 (V2 84 112) = 140" using Length32_far_example by (simp only: des)
  have n1: "round32 (84 / 140) = N1"
    using round32_eval_down [of "84 / 140" 1] by (simp add: roundTiesEven_def N1_def)
  have n2: "round32 (112 / 140) = N2"
    using round32_eval_down [of "112 / 140" 1] by (simp add: roundTiesEven_def N2_def)
  have norm: "Normalize32 (V2 84 112) = V2 N1 N2"
    unfolding Normalize32_def Let_def len by (simp only: n1 n2 Vector2.sel) simp
  have x: "round32 (N1 * 3) = X"
    using round32_eval_up [of 0 "N1 * 3"] by (simp add: roundTiesEven_def N1_def X_def)
  have y: "round32 (N2 * 3) = Y"
    using round32_eval_up [of 1 "N2 * 3"] by (simp add: roundTiesEven_def N2_def Y_def)
  have speed: "round32 (3 * round32 (140 / 140)) = 3"
    by (simp add: round32_one round32_three)
  have far: "\<not> (140 :: real) < round32 0.001" by (simp add: round32_epsilon)
  have "Arrive32 (V2 0 0) (V2 84 112) 3 140 = Scale32 (V2 N1 N2) 3"
    unfolding Arrive32_def Let_def des len norm speed using far by (simp only: if_False) simp
  also have "\<dots> = V2 X Y" by (simp only: Scale32_def Vector2.sel x y)
  finally have res: "Arrive32 (V2 0 0) (V2 84 112) 3 140 = V2 X Y" .
  have "9 < X * X + Y * Y" by (simp add: X_def Y_def)
  then have big: "3 < Length (Arrive32 (V2 0 0) (V2 84 112) 3 140)"
    unfolding res by (rule Length_gt_3)
  have near: "(1 / 2048 :: real) < round32 0.001" by (simp add: round32_epsilon)
  have zero: "Arrive32 (V2 0 0) (V2 (1 / 2048) 0) 3 (1 / 4096) = V2 0 0"
    unfolding Arrive32_def Let_def Length32_near_example using near by (simp only: if_True)
  show ?thesis
    using big zero res
    by (simp add: Length32_far_example Length32_near_example X_def Y_def)
qed

text \<open>
  C6, amended. In binary32, for a maximum speed \<open>s > 0\<close> that is a binary32 value, a slowing
  radius \<open>r > 0\<close> and \<open>d\<close> the computed length of the computed difference \<open>target - p\<close>:
  \<^verbatim>\<open>Arrive\<close> returns the zero vector when \<open>d < 0.001f\<close>. When \<open>d \<ge> 0.001f\<close> it returns the
  normalised difference scaled by \<open>speed\<close>, where \<open>speed\<close> is \<open>s\<close> if \<open>d \<ge> r\<close> and the rounded
  \<open>s * (d / r)\<close> if \<open>d < r\<close>, which is at most \<open>s\<close> and within the factors
  \<open>(1 \<plusminus> 2\<^sup>-\<^sup>2\<^sup>4)\<^sup>2\<close> of \<open>s * (d / r)\<close>; the magnitude of the returned vector lies between
  \<open>speed / slack32\<close> and \<open>speed * slack32\<close>. The magnitude never exceeds \<open>s * slack32\<close>,
  with \<open>slack32 \<le> 1 + 2\<^sup>-\<^sup>2\<^sup>1\<close>, and each component of the result has the sign of the same
  component of the difference (or is zero). The magnitude need not be exactly \<open>s\<close> and can
  exceed \<open>s\<close>.
\<close>

theorem Arrive32_speed:
  fixes p target :: Vector2 and s r :: real
  defines "desired \<equiv> Sub32 target p"
  defines "d \<equiv> Length32 desired"
  defines "speed \<equiv> (if r \<le> d then s else round32 (s * round32 (d / r)))"
  assumes s: "0 < s" and fs: "round32 s = s" and r: "0 < r"
  shows "(d < round32 0.001 \<longrightarrow> Arrive32 p target s r = V2 0 0) \<and>
         (round32 0.001 \<le> d \<longrightarrow>
            Arrive32 p target s r = Scale32 (Normalize32 desired) speed \<and>
            speed / slack32 \<le> Length (Arrive32 p target s r) \<and>
            Length (Arrive32 p target s r) \<le> speed * slack32) \<and>
         (d < r \<longrightarrow> speed \<le> s \<and>
            s * (d / r) * (1 - unit32)\<^sup>2 \<le> speed \<and> speed \<le> s * (d / r) * (1 + unit32)\<^sup>2) \<and>
         Length (Arrive32 p target s r) \<le> s * slack32 \<and>
         0 \<le> vx (Arrive32 p target s r) * vx desired \<and>
         0 \<le> vy (Arrive32 p target s r) * vy desired \<and>
         slack32 \<le> 1 + 1 / 2 ^ 21"
proof -
  let ?w = "round32 (d / r)"
  let ?sp = "round32 (s * ?w)"
  have d0: "0 \<le> d" by (simp add: d_def Length32_nonneg)
  have w0: "0 \<le> ?w" using d0 r by (intro round32_nonneg) simp
  have sp0: "0 \<le> ?sp" using w0 s by (intro round32_nonneg) simp
  have far: "s \<le> ?sp" if "r \<le> d"
  proof -
    have "1 \<le> d / r" using that r by simp
    then have "round32 1 \<le> ?w" by (rule round32_mono)
    then have "s * 1 \<le> s * ?w" using s by (intro mult_left_mono) (simp_all add: round32_one)
    then have "round32 s \<le> ?sp" by (intro round32_mono) simp
    then show ?thesis by (simp add: fs)
  qed
  have near: "?sp \<le> s" if "d < r"
  proof -
    have "d / r \<le> 1" using that r by simp
    then have "?w \<le> round32 1" by (rule round32_mono)
    then have "s * ?w \<le> s * 1" using s by (intro mult_left_mono) (simp_all add: round32_one)
    then have "?sp \<le> round32 s" by (intro round32_mono) simp
    then show ?thesis by (simp add: fs)
  qed
  have clamp: "(if ?sp > s then s else ?sp) = speed"
  proof (cases "r \<le> d")
    case True
    then show ?thesis using far [OF True] by (simp add: speed_def)
  next
    case False
    then have "d < r" by simp
    then show ?thesis using near False by (simp add: speed_def)
  qed
  have speed0: "0 \<le> speed" using s sp0 by (simp add: speed_def)
  have speed_le: "speed \<le> s" using near by (simp add: speed_def)
  have unf: "Arrive32 p target s r
               = (if d < round32 0.001 then V2 0 0
                  else Scale32 (Normalize32 desired) (if ?sp > s then s else ?sp))"
    unfolding Arrive32_def Let_def desired_def d_def by (rule refl)
  have small: "Arrive32 p target s r = V2 0 0" if "d < round32 0.001"
    using that by (simp only: unf if_True)
  have big: "Arrive32 p target s r = Scale32 (Normalize32 desired) speed" if "round32 0.001 \<le> d"
  proof -
    have "\<not> d < round32 0.001" using that by simp
    then show ?thesis by (simp only: unf clamp if_False)
  qed
  have dn: "Length32 desired \<noteq> 0" if "round32 0.001 \<le> d"
    using that round32_epsilon_pos by (simp add: d_def)
  have upper: "Length (Arrive32 p target s r) \<le> speed * slack32" if "round32 0.001 \<le> d"
    using Scale32_Normalize32_upper [OF dn [OF that] speed0] big [OF that] by simp
  have lower: "speed / slack32 \<le> Length (Arrive32 p target s r)" if "round32 0.001 \<le> d"
    using Scale32_Normalize32_lower [OF dn [OF that] speed0] big [OF that] by simp
  have interp: "s * (d / r) * (1 - unit32)\<^sup>2 \<le> speed \<and> speed \<le> s * (d / r) * (1 + unit32)\<^sup>2"
    if "d < r"
  proof -
    have up: "0 < 1 + unit32" and lo: "0 < 1 - unit32" using unit32_range by simp_all
    have q0: "0 \<le> d / r" using d0 r by simp
    have w1: "?w \<le> d / r * (1 + unit32)" using q0 by (rule round32_upper_nonneg)
    have w2: "d / r * (1 - unit32) \<le> ?w" using q0 by (rule round32_lower_nonneg)
    have sw: "0 \<le> s * ?w" using s w0 by simp
    have "?sp \<le> s * ?w * (1 + unit32)" using sw by (rule round32_upper_nonneg)
    also have "\<dots> \<le> s * (d / r * (1 + unit32)) * (1 + unit32)"
      using w1 s up by (intro mult_right_mono mult_left_mono) simp_all
    also have "\<dots> = s * (d / r) * (1 + unit32)\<^sup>2"
      by (simp only: power2_eq_square mult.assoc)
    finally have a: "?sp \<le> s * (d / r) * (1 + unit32)\<^sup>2" .
    have "s * (d / r) * (1 - unit32)\<^sup>2 = s * (d / r * (1 - unit32)) * (1 - unit32)"
      by (simp only: power2_eq_square mult.assoc)
    also have "\<dots> \<le> s * ?w * (1 - unit32)"
      using w2 s lo by (intro mult_right_mono mult_left_mono) simp_all
    also have "\<dots> \<le> ?sp" using sw by (rule round32_lower_nonneg)
    finally have b: "s * (d / r) * (1 - unit32)\<^sup>2 \<le> ?sp" .
    show ?thesis using a b that by (simp add: speed_def)
  qed
  have bound: "Length (Arrive32 p target s r) \<le> s * slack32"
  proof (cases "d < round32 0.001")
    case True
    have "0 \<le> s * slack32" using s slack32_bounds(1) by simp
    then show ?thesis using small [OF True] by (simp add: Length_zero)
  next
    case False
    then have ge: "round32 0.001 \<le> d" by simp
    have "speed * slack32 \<le> s * slack32"
      using speed_le slack32_bounds(1) by (intro mult_right_mono) simp_all
    then show ?thesis using upper [OF ge] by linarith
  qed
  have sign: "0 \<le> vx (Arrive32 p target s r) * vx desired \<and>
              0 \<le> vy (Arrive32 p target s r) * vy desired"
  proof (cases "d < round32 0.001")
    case True
    then show ?thesis using small by simp
  next
    case False
    then have ge: "round32 0.001 \<le> d" by simp
    then have l: "0 < Length32 desired" using round32_epsilon_pos by (simp add: d_def)
    show ?thesis
      using component_sign [OF l speed0, of "vx desired"] component_sign [OF l speed0, of "vy desired"] l
      by (simp add: big [OF ge] Scale32_def Normalize32_def Let_def)
  qed
  show ?thesis
    using small big upper lower interp speed_le bound sign slack32_bounds(2) by blast
qed

theorem Arrive32_speed_witness:
  "Arrive32 (V2 0 0) (V2 (1 / 2048) 0) 3 140 = V2 0 0 \<and>
   Arrive32 (V2 0 0) (V2 84 112) 3 140
     = Scale32 (Normalize32 (Sub32 (V2 84 112) (V2 0 0))) 3 \<and>
   3 / slack32 \<le> Length (Arrive32 (V2 0 0) (V2 84 112) 3 140) \<and>
   Length (Arrive32 (V2 0 0) (V2 84 112) 3 140) \<le> 3 * slack32 \<and>
   Arrive32 (V2 0 0) (V2 84 112) 3 280
     = Scale32 (Normalize32 (Sub32 (V2 84 112) (V2 0 0))) (round32 (3 * round32 (140 / 280))) \<and>
   round32 (3 * round32 (140 / 280)) \<le> 3 \<and>
   Length (Arrive32 (V2 0 0) (V2 84 112) 3 280) \<le> 3 * slack32"
proof -
  have s: "(0::real) < 3" by simp
  have r: "(0::real) < 140" by simp
  have r2: "(0::real) < 280" by simp
  have near: "Length32 (Sub32 (V2 (1 / 2048) 0) (V2 0 0)) < round32 0.001"
    by (simp add: Length32_near_example round32_epsilon)
  have far: "round32 0.001 \<le> Length32 (Sub32 (V2 84 112) (V2 0 0))"
    by (simp add: Length32_far_example round32_epsilon)
  have lt: "Length32 (Sub32 (V2 84 112) (V2 0 0)) < 280"
    by (simp add: Length32_far_example)
  have sp: "(if 140 \<le> Length32 (Sub32 (V2 84 112) (V2 0 0)) then 3
             else round32 (3 * round32 (Length32 (Sub32 (V2 84 112) (V2 0 0)) / 140))) = (3::real)"
    by (simp add: Length32_far_example)
  have sp2: "(if 280 \<le> Length32 (Sub32 (V2 84 112) (V2 0 0)) then 3
              else round32 (3 * round32 (Length32 (Sub32 (V2 84 112) (V2 0 0)) / 280)))
               = round32 (3 * round32 (140 / 280))"
    by (simp add: Length32_far_example)
  note small = Arrive32_speed [OF s round32_three r, of "V2 (1 / 2048) 0" "V2 0 0"]
  note full = Arrive32_speed [OF s round32_three r, of "V2 84 112" "V2 0 0", unfolded sp]
  note slow = Arrive32_speed [OF s round32_three r2, of "V2 84 112" "V2 0 0", unfolded sp2]
  have "Arrive32 (V2 0 0) (V2 (1 / 2048) 0) 3 140 = V2 0 0"
    using small near by blast
  moreover have "Arrive32 (V2 0 0) (V2 84 112) 3 140
                   = Scale32 (Normalize32 (Sub32 (V2 84 112) (V2 0 0))) 3 \<and>
                 3 / slack32 \<le> Length (Arrive32 (V2 0 0) (V2 84 112) 3 140) \<and>
                 Length (Arrive32 (V2 0 0) (V2 84 112) 3 140) \<le> 3 * slack32"
    using full far by blast
  moreover have "Arrive32 (V2 0 0) (V2 84 112) 3 280
                   = Scale32 (Normalize32 (Sub32 (V2 84 112) (V2 0 0)))
                       (round32 (3 * round32 (140 / 280))) \<and>
                 round32 (3 * round32 (140 / 280)) \<le> 3 \<and>
                 Length (Arrive32 (V2 0 0) (V2 84 112) 3 280) \<le> 3 * slack32"
    using slow far lt by blast
  ultimately show ?thesis by blast
qed

subsection \<open>Predictive avoidance\<close>

text \<open>
  C5, as the claim states it, fails: two agents with the same position and the same velocity
  have predicted positions closer than the combined radius 24, and the force is zero, below
  0.4 times \<^verbatim>\<open>maxAvoidForce\<close>.
\<close>

theorem PredictiveAvoidance_coincident_counterexample:
  "Length (Sub (Add (pos (newAgent (V2 100 100) (V2 1 0) 2.4 0 SKYBLUE))
                    (Scale (vel (newAgent (V2 100 100) (V2 1 0) 2.4 0 SKYBLUE)) 0.9))
               (Add (pos (newAgent (V2 100 100) (V2 1 0) 2.5 3 MAROON))
                    (Scale (vel (newAgent (V2 100 100) (V2 1 0) 2.5 3 MAROON)) 0.9))) < 24 \<and>
   PredictiveAvoidance (newAgent (V2 100 100) (V2 1 0) 2.4 0 SKYBLUE)
                       (newAgent (V2 100 100) (V2 1 0) 2.5 3 MAROON) 0.9 0.9 = V2 0 0 \<and>
   \<not> 0.4 * 0.9 \<le> Length (PredictiveAvoidance (newAgent (V2 100 100) (V2 1 0) 2.4 0 SKYBLUE)
                                              (newAgent (V2 100 100) (V2 1 0) 2.5 3 MAROON) 0.9 0.9)"
  by (simp add: PredictiveAvoidance_def newAgent_def Sub_def Add_def Scale_def Length_zero)

text \<open>
  C5, amended. For \<^verbatim>\<open>maxAvoidForce\<close> \<open>f \<ge> 0\<close> and two agents whose positions, extrapolated by
  \<^verbatim>\<open>lookAheadTime\<close> with their velocities, are at a distance \<open>d\<close> with \<open>0.001 < d < 24\<close>:
  \<^verbatim>\<open>PredictiveAvoidance\<close> returns the difference of the predicted positions (that of \<open>a\<close>
  minus that of \<open>b\<close>) scaled by a positive factor, of magnitude
  \<open>f * (0.4 + 0.6 * (24 - d) / 24)\<close>, which is at least \<open>0.4 * f\<close>.
\<close>

theorem PredictiveAvoidance_inside:
  fixes a b :: Agent and t f :: real
  defines "futureA \<equiv> Add (pos a) (Scale (vel a) t)"
      and "futureB \<equiv> Add (pos b) (Scale (vel b) t)"
  defines "d \<equiv> Length (Sub futureA futureB)"
  assumes lo: "0.001 < d" and hi: "d < 24" and f: "0 \<le> f"
  shows "PredictiveAvoidance a b t f
           = Scale (Sub futureA futureB) (f * (0.4 + 0.6 * ((24 - d) / 24)) / d) \<and>
         0 \<le> f * (0.4 + 0.6 * ((24 - d) / 24)) / d \<and>
         Length (PredictiveAvoidance a b t f) = f * (0.4 + 0.6 * ((24 - d) / 24)) \<and>
         0.4 * f \<le> Length (PredictiveAvoidance a b t f)"
proof -
  let ?k = "f * (0.4 + 0.6 * ((24 - d) / 24))"
  have eq: "PredictiveAvoidance a b t f = Scale (Normalize (Sub futureA futureB)) ?k"
    using lo hi by (simp add: PredictiveAvoidance_def Let_def futureA_def futureB_def d_def)
  have unit: "Length (Normalize (Sub futureA futureB)) = 1"
    using lo by (intro Length_Normalize) (simp add: d_def)
  have k: "0.4 * f \<le> ?k"
  proof -
    have "0 \<le> (24 - d) / 24" using hi by simp
    then have "0.4 \<le> 0.4 + 0.6 * ((24 - d) / 24)" by simp
    then have "f * 0.4 \<le> f * (0.4 + 0.6 * ((24 - d) / 24))"
      using f by (rule mult_left_mono)
    then show ?thesis by (simp only: mult.commute)
  qed
  then have k0: "0 \<le> ?k" using f by linarith
  have kd: "0 \<le> ?k / d" using k0 lo by simp
  have len: "Length (PredictiveAvoidance a b t f) = ?k"
    using k0 unit by (simp only: eq Length_Scale abs_of_nonneg mult_1_right)
  have dir: "PredictiveAvoidance a b t f = Scale (Sub futureA futureB) (?k / d)"
    by (simp add: eq Normalize_eq_Scale Scale_def d_def)
  show ?thesis using dir len k kd by simp
qed

theorem PredictiveAvoidance_inside_witness:
  "PredictiveAvoidance (newAgent (V2 0 0) (V2 0 0) 2.4 0 SKYBLUE)
                       (newAgent (V2 12 0) (V2 0 0) 2.4 0 MAROON) 0.9 0.9 = V2 (- 0.63) 0 \<and>
   Length (PredictiveAvoidance (newAgent (V2 0 0) (V2 0 0) 2.4 0 SKYBLUE)
                               (newAgent (V2 12 0) (V2 0 0) 2.4 0 MAROON) 0.9 0.9) = 0.63"
  using PredictiveAvoidance_inside [where a = "newAgent (V2 0 0) (V2 0 0) 2.4 0 SKYBLUE"
          and b = "newAgent (V2 12 0) (V2 0 0) 2.4 0 MAROON" and t = "0.9" and f = "0.9"]
  by (simp add: newAgent_def Sub_def Add_def Scale_def Length_axis_x)

text \<open>
  C10. \<^verbatim>\<open>PredictiveAvoidance\<close> returns the zero vector when the distance \<open>d\<close> of the predicted
  positions is at most 0.001 or at least 24. Two agents with the same position and the same
  velocity get no repulsion from each other: the predictive force is zero and the pass of
  the loop of \<^verbatim>\<open>Separation\<close> for that neighbour leaves \<^verbatim>\<open>steer\<close> and \<^verbatim>\<open>count\<close> as they were.
\<close>

theorem PredictiveAvoidance_zero:
  fixes a b :: Agent and t f :: real
  defines "d \<equiv> Length (Sub (Add (pos a) (Scale (vel a) t)) (Add (pos b) (Scale (vel b) t)))"
  shows "(d \<le> 0.001 \<or> 24 \<le> d \<longrightarrow> PredictiveAvoidance a b t f = V2 0 0) \<and>
         (pos a = pos b \<and> vel a = vel b \<longrightarrow>
            PredictiveAvoidance a b t f = V2 0 0 \<and> sepStep i a r j b sc = sc)"
proof -
  have outside: "d \<le> 0.001 \<or> 24 \<le> d \<Longrightarrow> PredictiveAvoidance a b t f = V2 0 0"
    by (auto simp add: PredictiveAvoidance_def Let_def d_def)
  have same: "d = 0" if "pos a = pos b" "vel a = vel b"
    using that by (simp add: d_def Sub_def Length_zero)
  have sep: "sepStep i a r j b sc = sc" if "pos a = pos b"
    using that by (simp add: sepStep_def Sub_def Length_zero)
  show ?thesis using outside same sep by simp
qed

theorem PredictiveAvoidance_zero_witness:
  "PredictiveAvoidance (newAgent (V2 0 0) (V2 0 0) 2.4 0 SKYBLUE)
                       (newAgent (V2 24 0) (V2 0 0) 2.4 0 MAROON) 0.9 0.9 = V2 0 0 \<and>
   PredictiveAvoidance (newAgent (V2 100 100) (V2 1 0) 2.4 0 SKYBLUE)
                       (newAgent (V2 100 100) (V2 1 0) 2.5 3 MAROON) 0.9 0.9 = V2 0 0 \<and>
   sepStep 0 (newAgent (V2 100 100) (V2 1 0) 2.4 0 SKYBLUE) 48 1
             (newAgent (V2 100 100) (V2 1 0) 2.5 3 MAROON) (V2 0.5 0, 1) = (V2 0.5 0, 1)"
  using PredictiveAvoidance_zero [where a = "newAgent (V2 0 0) (V2 0 0) 2.4 0 SKYBLUE"
          and b = "newAgent (V2 24 0) (V2 0 0) 2.4 0 MAROON" and t = "0.9" and f = "0.9"]
        PredictiveAvoidance_zero [where a = "newAgent (V2 100 100) (V2 1 0) 2.4 0 SKYBLUE"
          and b = "newAgent (V2 100 100) (V2 1 0) 2.5 3 MAROON" and t = "0.9" and f = "0.9"
          and i = 0 and r = 48 and j = 1 and sc = "(V2 0.5 0, 1)"]
  by (simp add: newAgent_def Sub_def Add_def Scale_def Length_axis_x)

subsection \<open>Path following\<close>

text \<open>
  C8. The guard of line 168 resets an index at or above the length of the path, and only
  that: on a path of two waypoints the index \<open>-1\<close> passes the guard and line 169 reads
  \<^verbatim>\<open>path[-1]\<close>, outside the vector.
\<close>

theorem PathFollowing_negative_index:
  "PathFollowing (newAgent (V2 99 0) (V2 0 0) 3 (- 1) SKYBLUE) [V2 0 0, V2 100 0] (- 1) 10
     = Inl OutOfRange"
  by (simp add: PathFollowing_def)

subsection \<open>Separation\<close>

text \<open>
  C3, as the claim states it, fails: a second agent of the list (index 1, not the index 0 of
  \<^verbatim>\<open>self\<close>) at exactly the position of \<^verbatim>\<open>self\<close> is within the radius and adds nothing:
  \<^verbatim>\<open>steer\<close> and \<^verbatim>\<open>count\<close> stay at zero, and the force is zero.
\<close>

theorem Separation_coincident_counterexample:
  "pos (newAgent (V2 100 100) (V2 0 1) 2.5 3 MAROON)
     = pos (newAgent (V2 100 100) (V2 1 0) 2.4 0 SKYBLUE) \<and>
   sepLoop 0 (newAgent (V2 100 100) (V2 1 0) 2.4 0 SKYBLUE) 48 0
     [newAgent (V2 100 100) (V2 1 0) 2.4 0 SKYBLUE,
      newAgent (V2 100 100) (V2 0 1) 2.5 3 MAROON] (V2 0 0, 0) = (V2 0 0, 0) \<and>
   Separation 0 (newAgent (V2 100 100) (V2 1 0) 2.4 0 SKYBLUE)
     [newAgent (V2 100 100) (V2 1 0) 2.4 0 SKYBLUE,
      newAgent (V2 100 100) (V2 0 1) 2.5 3 MAROON] 48 0.9 = V2 0 0"
  by (simp add: Separation_def sepStep_def newAgent_def Sub_def Length_zero)

lemma sepStep_cases:
  "sepStep i self r j other sc =
     (if j \<noteq> i \<and> 0 < Length (Sub (pos self) (pos other))
           \<and> Length (Sub (pos self) (pos other)) < r
      then (Add (fst sc) (Scale (Normalize (Sub (pos self) (pos other)))
                                ((r - Length (Sub (pos self) (pos other))) / r)),
            snd sc + 1)
      else sc)"
  by (simp add: sepStep_def Let_def)

text \<open>
  C3, amended. The loop of \<^verbatim>\<open>Separation\<close> accumulates, for every agent of the list other
  than \<^verbatim>\<open>self\<close> (by index, the address of the source) whose distance \<open>d\<close> to \<^verbatim>\<open>self\<close> satisfies
  \<open>0 < d < radius\<close>, the unit vector away from that neighbour weighted by
  \<open>(radius - d) / radius\<close>, and counts it; an agent at exactly the position of \<^verbatim>\<open>self\<close>
  (\<open>d = 0\<close>) contributes nothing.
\<close>

theorem Separation_accumulates:
  fixes selfIdx j :: nat and self :: Agent and r :: real and others :: "Agent list"
  defines "d \<equiv> (\<lambda>other. Length (Sub (pos self) (pos other)))"
  defines "near \<equiv> filter (\<lambda>ko. fst ko \<noteq> selfIdx \<and> 0 < d (snd ko) \<and> d (snd ko) < r)
                          (zip [j..<j + length others] others)"
  shows "sepLoop selfIdx self r j others sc
           = (foldl Add (fst sc)
                (map (\<lambda>ko. Scale (Normalize (Sub (pos self) (pos (snd ko))))
                                  ((r - d (snd ko)) / r)) near),
              snd sc + length near) \<and>
         (\<forall>ko \<in> set near. Length (Normalize (Sub (pos self) (pos (snd ko)))) = 1)"
proof
  show "sepLoop selfIdx self r j others sc
           = (foldl Add (fst sc)
                (map (\<lambda>ko. Scale (Normalize (Sub (pos self) (pos (snd ko))))
                                  ((r - d (snd ko)) / r)) near),
              snd sc + length near)"
    unfolding near_def d_def
  proof (induction others arbitrary: j sc)
    case Nil
    then show ?case by simp
  next
    case (Cons other rest)
    have z: "zip [j..<j + length (other # rest)] (other # rest)
               = (j, other) # zip [Suc j..<Suc j + length rest] rest"
    proof -
      have "[j..<j + length (other # rest)] = j # [Suc j..<Suc j + length rest]"
        by (subst upt_rec) simp
      then show ?thesis by simp
    qed
    show ?case
      by (simp only: sepLoop.simps Cons.IH z) (simp add: sepStep_cases)
  qed
  show "\<forall>ko \<in> set near. Length (Normalize (Sub (pos self) (pos (snd ko)))) = 1"
    by (simp add: near_def d_def Length_Normalize)
qed

theorem Separation_accumulates_witness:
  "sepLoop 0 (newAgent (V2 100 100) (V2 1 0) 2.4 0 SKYBLUE) 48 0
     [newAgent (V2 100 100) (V2 1 0) 2.4 0 SKYBLUE,
      newAgent (V2 100 100) (V2 0 1) 2.5 3 MAROON,
      newAgent (V2 112 100) (V2 0 0) 2.5 1 SKYBLUE,
      newAgent (V2 100 148) (V2 0 0) 2.5 1 MAROON] (V2 0 0, 0) = (V2 (- 0.75) 0, 1)"
  using Separation_accumulates [where selfIdx = 0 and j = 0 and r = 48
          and self = "newAgent (V2 100 100) (V2 1 0) 2.4 0 SKYBLUE"
          and sc = "(V2 0 0, 0)"
          and others = "[newAgent (V2 100 100) (V2 1 0) 2.4 0 SKYBLUE,
                         newAgent (V2 100 100) (V2 0 1) 2.5 3 MAROON,
                         newAgent (V2 112 100) (V2 0 0) 2.5 1 SKYBLUE,
                         newAgent (V2 100 148) (V2 0 0) 2.5 1 MAROON]"]
  by (simp add: sepStep_def newAgent_def Normalize_def Sub_def Add_def Scale_def
                Length_axis_x Length_axis_y Length_zero)

subsection \<open>Obstacle avoidance\<close>

text \<open>
  C4, as the claim states it, fails: an agent whose current position and whose look-ahead
  point are both inside the buffered radius of an obstacle gets the look-ahead push alone;
  the push for the current position, which the claim adds to it, is not added.
\<close>

theorem ObstacleAvoidance_both_inside_counterexample:
  "Length (Sub (Add (pos (newAgent (V2 29.5 0) (V2 1 0) 2.4 0 SKYBLUE)) (Scale (V2 1 0) 0.25))
               (V2 0 0)) < 22 + 8 \<and>
   Length (Sub (pos (newAgent (V2 29.5 0) (V2 1 0) 2.4 0 SKYBLUE)) (V2 0 0)) < 22 + 8 \<and>
   ObstacleAvoidance (newAgent (V2 29.5 0) (V2 1 0) 2.4 0 SKYBLUE) [V2 0 0] [22] 0.25 1
     = Inr (V2 0.25 0) \<and>
   ObstacleAvoidance (newAgent (V2 29.5 0) (V2 1 0) 2.4 0 SKYBLUE) [V2 0 0] [22] 0.25 1
     \<noteq> Inr (Add (V2 0.25 0)
               (Scale (Normalize (Sub (pos (newAgent (V2 29.5 0) (V2 1 0) 2.4 0 SKYBLUE)) (V2 0 0)))
                      ((22 + 8 - Length (Sub (pos (newAgent (V2 29.5 0) (V2 1 0) 2.4 0 SKYBLUE))
                                             (V2 0 0))) * 1 * 0.8)))"
  by (simp add: ObstacleAvoidance_def obsStep_def newAgent_def Normalize_def Sub_def Add_def
                Scale_def Limit_def Length_axis_x Length_zero)

lemma Add_zero_right: "Add v (V2 0 0) = v"
  by (cases v) (simp add: Add_def)

lemma obsLoop_fold:
  "i + length cs \<le> length radii \<Longrightarrow>
   obsLoop agent ahead k i cs radii steer
     = Inr (foldl (\<lambda>s cr. obsStep agent ahead k (fst cr) (snd cr) s) steer (zip cs (drop i radii)))"
proof (induction cs arbitrary: i steer)
  case Nil
  then show ?case by simp
next
  case (Cons c cs)
  then have i: "i < length radii" by simp
  then have d: "drop i radii = radii ! i # drop (Suc i) radii"
    by (simp add: Cons_nth_drop_Suc)
  from Cons.prems have "Suc i + length cs \<le> length radii" by simp
  from Cons.IH [OF this] show ?case using i d by simp
qed

text \<open>
  C4, amended. With at least as many radii as centres, \<^verbatim>\<open>ObstacleAvoidance\<close> adds for every
  obstacle exactly one of: the push away from the obstacle at the look-ahead point, weighted
  by the penetration, when the look-ahead point is inside the buffered radius; otherwise
  (the look-ahead point is not inside) the push away at the current position, discounted by
  0.8, when the current position is inside the buffered radius; otherwise nothing. The sum
  is returned clamped to the strength, or as zero when its magnitude is below 0.001.
\<close>

theorem ObstacleAvoidance_fallback:
  fixes agent :: Agent and cs :: "Vector2 list" and radii :: "real list" and la k :: real
  defines "heading \<equiv> (if Length (Normalize (vel agent)) < 0.01 then V2 0 (- 1)
                       else Normalize (vel agent))"
  defines "ahead \<equiv> Add (pos agent) (Scale heading la)"
  defines "push \<equiv> (\<lambda>cr.
             if Length (Sub ahead (fst cr)) < snd cr + 8
             then Scale (Normalize (Sub ahead (fst cr)))
                        ((snd cr + 8 - Length (Sub ahead (fst cr))) * k)
             else if Length (Sub (pos agent) (fst cr)) < snd cr + 8
             then Scale (Normalize (Sub (pos agent) (fst cr)))
                        ((snd cr + 8 - Length (Sub (pos agent) (fst cr))) * k * 0.8)
             else V2 0 0)"
  defines "steer \<equiv> foldl Add (V2 0 0) (map push (zip cs radii))"
  assumes len: "length cs \<le> length radii"
  shows "ObstacleAvoidance agent cs radii la k
           = Inr (if Length steer < 0.001 then V2 0 0 else Limit steer k)"
proof -
  have step: "obsStep agent ahead k (fst cr) (snd cr) s = Add s (push cr)" for cr s
    by (simp add: obsStep_def push_def Let_def Add_zero_right)
  have "foldl (\<lambda>s cr. obsStep agent ahead k (fst cr) (snd cr) s) s0 xs
          = foldl Add s0 (map push xs)" for s0 xs
    by (induction xs arbitrary: s0) (simp_all add: step)
  then have "obsLoop agent ahead k 0 cs radii (V2 0 0) = Inr steer"
    using len by (simp add: obsLoop_fold steer_def)
  then show ?thesis
    by (simp add: ObstacleAvoidance_def Let_def ahead_def heading_def)
qed

theorem ObstacleAvoidance_fallback_witness:
  "length [V2 0 0] \<le> length [22 :: real] \<and>
   ObstacleAvoidance (newAgent (V2 29.5 0) (V2 1 0) 2.4 0 SKYBLUE) [V2 0 0] [22] 70 1.2
     = Inr (V2 0.48 0)"
  using ObstacleAvoidance_fallback [where agent = "newAgent (V2 29.5 0) (V2 1 0) 2.4 0 SKYBLUE"
          and cs = "[V2 0 0]" and radii = "[22]" and la = 70 and k = "1.2"]
  by (simp add: newAgent_def Normalize_def Sub_def Add_def Scale_def Limit_def
                Length_axis_x Length_zero)

subsection \<open>Boundary policy\<close>

text \<open>
  C9. In the single-agent branch the new position is the integrated position with each
  coordinate clamped into \<open>[0, screenW]\<close> and \<open>[0, screenH]\<close>. In the multi-agent branch
  a coordinate of the integrated position below \<open>-60\<close> becomes the far edge plus 60, one
  above the far edge plus 60 becomes \<open>-60\<close>, and any other coordinate is unchanged.
\<close>

theorem boundary_policy:
  "pos (fst (singleStep tg player wanderAngle target mouseVel rnd))
     = keepInside (Add (pos player) (vel (fst (singleStep tg player wanderAngle target mouseVel rnd)))) \<and>
   keepInside p = V2 (min screenW (max 0 (vx p))) (min screenH (max 0 (vy p))) \<and>
   0 \<le> vx (keepInside p) \<and> vx (keepInside p) \<le> screenW \<and>
   0 \<le> vy (keepInside p) \<and> vy (keepInside p) \<le> screenH \<and>
   pos (integrate a finalSteer) = wrapAround (Add (pos a) (vel (integrate a finalSteer))) \<and>
   wrapAround p =
     V2 (if vx p < - 60 then screenW + 60 else if vx p > screenW + 60 then - 60 else vx p)
        (if vy p < - 60 then screenH + 60 else if vy p > screenH + 60 then - 60 else vy p)"
proof -
  have clamp: "keepInside p = V2 (min screenW (max 0 (vx p))) (min screenH (max 0 (vy p)))"
    by (cases p) (simp add: keepInside_def screenW_def screenH_def Let_def min_def max_def)
  have inside: "0 \<le> vx (keepInside p) \<and> vx (keepInside p) \<le> screenW \<and>
                0 \<le> vy (keepInside p) \<and> vy (keepInside p) \<le> screenH"
    by (simp add: clamp screenW_def screenH_def)
  have wrap: "wrapAround p =
     V2 (if vx p < - 60 then screenW + 60 else if vx p > screenW + 60 then - 60 else vx p)
        (if vy p < - 60 then screenH + 60 else if vy p > screenH + 60 then - 60 else vy p)"
    by (cases p) (simp add: wrapAround_def screenW_def screenH_def Let_def)
  have single: "pos (fst (singleStep tg player wanderAngle target mouseVel rnd))
     = keepInside (Add (pos player) (vel (fst (singleStep tg player wanderAngle target mouseVel rnd))))"
    by (simp add: singleStep_def Let_def)
  have multi: "pos (integrate a finalSteer)
     = wrapAround (Add (pos a) (vel (integrate a finalSteer)))"
    by (simp add: integrate_def Let_def)
  show ?thesis using clamp inside wrap single multi by simp
qed

subsection \<open>The multi-agent tick\<close>

lemma PathFollowing_total:
  "0 \<le> idx \<Longrightarrow> \<exists>r. PathFollowing a pth idx w = Inr r \<and> 0 \<le> snd r"
  by (auto simp add: PathFollowing_def Let_def)

lemma ObstacleAvoidance_main_total:
  "\<exists>v. ObstacleAvoidance a obsCenters obsRadii la k = Inr v"
  by (simp add: ObstacleAvoidance_def Let_def obsLoop_fold obsCenters_def obsRadii_def)

lemma pathComponent_total:
  "0 \<le> pathIndex a \<Longrightarrow> \<exists>sp. pathComponent tg a = Inr sp \<and> 0 \<le> snd sp"
  using PathFollowing_total [of "pathIndex a" a path pathWaypointRadius]
  by (auto simp add: pathComponent_def)

lemma pathComponent_index:
  "pathComponent tg a = Inr sp \<Longrightarrow> 0 \<le> pathIndex a \<Longrightarrow> 0 \<le> snd sp"
  using pathComponent_total [of a tg] by auto

lemma obstacleComponent_total: "\<exists>v. obstacleComponent tg a = Inr v"
  using ObstacleAvoidance_main_total [of a obstacleLookAhead obstacleStrength]
  by (auto simp add: obstacleComponent_def)

lemma composedForce_total:
  assumes "i < length xs" and "0 \<le> pathIndex (xs ! i)"
  shows "\<exists>r. composedForce tg i xs = Inr r"
proof -
  obtain sp where sp: "pathComponent tg ((xs ! i)\<lparr>acc := V2 0 0\<rparr>) = Inr sp"
    using pathComponent_total [of "(xs ! i)\<lparr>acc := V2 0 0\<rparr>" tg] assms(2) by auto
  obtain v where v: "obstacleComponent tg ((xs ! i)\<lparr>acc := V2 0 0, pathIndex := snd sp\<rparr>) = Inr v"
    using obstacleComponent_total by blast
  show ?thesis using assms(1) sp v by (simp add: composedForce_def Let_def)
qed

lemma composedForce_Inr:
  assumes "composedForce tg i xs = Inr r"
  shows "i < length xs \<and>
         (\<exists>k. snd r = xs[i := (xs ! i)\<lparr>acc := V2 0 0, pathIndex := k\<rparr>] \<and>
              (0 \<le> pathIndex (xs ! i) \<longrightarrow> 0 \<le> k))"
proof -
  have i: "i < length xs" using assms by (simp add: composedForce_def split: if_splits)
  obtain sp where sp: "pathComponent tg ((xs ! i)\<lparr>acc := V2 0 0\<rparr>) = Inr sp"
    using assms i by (auto simp add: composedForce_def Let_def split: sum.splits)
  have "snd r = xs[i := (xs ! i)\<lparr>acc := V2 0 0, pathIndex := snd sp\<rparr>]"
    using assms i sp by (auto simp add: composedForce_def Let_def split: sum.splits)
  moreover have "0 \<le> pathIndex (xs ! i) \<longrightarrow> 0 \<le> snd sp"
    using pathComponent_index [OF sp] by simp
  ultimately show ?thesis using i by blast
qed

lemma agentStep_Inr:
  assumes "agentStep tg i xs = Inr ys"
  shows "i < length xs \<and> length ys = length xs \<and> (\<forall>m. m \<noteq> i \<longrightarrow> ys ! m = xs ! m) \<and>
         (\<exists>f k. ys ! i = integrate ((xs ! i)\<lparr>acc := V2 0 0, pathIndex := k\<rparr>) f \<and>
                 (0 \<le> pathIndex (xs ! i) \<longrightarrow> 0 \<le> k))"
proof -
  obtain r where r: "composedForce tg i xs = Inr r"
    and ys: "ys = (snd r)[i := integrate (snd r ! i) (fst r)]"
    using assms by (auto simp add: agentStep_def split: sum.splits)
  from composedForce_Inr [OF r] obtain k where i: "i < length xs"
    and k: "snd r = xs[i := (xs ! i)\<lparr>acc := V2 0 0, pathIndex := k\<rparr>]"
           "0 \<le> pathIndex (xs ! i) \<longrightarrow> 0 \<le> k"
    by blast
  have "ys ! i = integrate ((xs ! i)\<lparr>acc := V2 0 0, pathIndex := k\<rparr>) (fst r)"
    using i by (simp add: ys k)
  moreover have "length ys = length xs" by (simp add: ys k)
  moreover have "\<forall>m. m \<noteq> i \<longrightarrow> ys ! m = xs ! m" by (simp add: ys k)
  ultimately show ?thesis using i k(2) by blast
qed

lemma agentStep_total:
  "i < length xs \<Longrightarrow> 0 \<le> pathIndex (xs ! i) \<Longrightarrow> \<exists>ys. agentStep tg i xs = Inr ys"
  using composedForce_total [of i xs tg] by (auto simp add: agentStep_def)

lemma integrate_fields:
  "maxSpeed (integrate a f) = maxSpeed a \<and> maxForce (integrate a f) = maxForce a \<and>
   pathIndex (integrate a f) = pathIndex a \<and>
   vel (integrate a f) = Limit (Add (vel a) (appliedForce a f)) (maxSpeed a)"
  by (simp add: integrate_def Let_def)

lemma tickLoop_total:
  assumes "\<forall>i \<in> set js. i < length xs"
      and "\<forall>m < length xs. 0 \<le> pathIndex (xs ! m)"
  shows "\<exists>zs. tickLoop tg js xs = Inr zs \<and> length zs = length xs \<and>
           (\<forall>m < length xs. 0 \<le> pathIndex (zs ! m))"
  using assms
proof (induction js arbitrary: xs)
  case Nil
  then show ?case by simp
next
  case (Cons i rest)
  have i: "i < length xs" using Cons.prems(1) by simp
  then have pi: "0 \<le> pathIndex (xs ! i)" using Cons.prems(2) by simp
  obtain ys where ys: "agentStep tg i xs = Inr ys"
    using agentStep_total [OF i pi] by blast
  from agentStep_Inr [OF ys] obtain f k where
        len: "length ys = length xs"
    and other: "\<forall>m. m \<noteq> i \<longrightarrow> ys ! m = xs ! m"
    and self: "ys ! i = integrate ((xs ! i)\<lparr>acc := V2 0 0, pathIndex := k\<rparr>) f"
    and k: "0 \<le> k"
    using pi by blast
  have idx: "0 \<le> pathIndex (ys ! m)" if "m < length xs" for m
  proof (cases "m = i")
    case True
    then show ?thesis using self k by (simp add: integrate_fields)
  next
    case False
    then show ?thesis using other that Cons.prems(2) by simp
  qed
  have p1: "\<forall>j \<in> set rest. j < length ys" using Cons.prems(1) len by simp
  have p2: "\<forall>m < length ys. 0 \<le> pathIndex (ys ! m)" using idx len by simp
  from Cons.IH [OF p1 p2] obtain zs where
        zs: "tickLoop tg rest ys = Inr zs"
    and zlen: "length zs = length ys"
    and zi: "\<forall>m < length ys. 0 \<le> pathIndex (zs ! m)"
    by blast
  have "tickLoop tg (i # rest) xs = Inr zs" using ys zs by simp
  moreover have "length zs = length xs" using zlen len by simp
  moreover have "\<forall>m < length xs. 0 \<le> pathIndex (zs ! m)" using zi len by simp
  ultimately show ?case by blast
qed

text \<open>A tick on agents whose waypoint indices are not negative returns.\<close>

lemma multiTick_total:
  assumes "\<forall>a \<in> set agents. 0 \<le> pathIndex a"
  shows "\<exists>agents'. multiTick tg agents = Inr agents' \<and> length agents' = length agents"
proof -
  have "\<forall>i \<in> set [0..<length agents]. i < length agents" by simp
  moreover have "\<forall>m < length agents. 0 \<le> pathIndex (agents ! m)" using assms by simp
  ultimately show ?thesis
    using tickLoop_total [of "[0..<length agents]" agents tg] by (auto simp add: multiTick_def)
qed





subsection \<open>Force and speed limits\<close>

text \<open>
  C1, as the claim states it, fails in binary32. An agent of \<^verbatim>\<open>main\<close> with velocity
  \<open>(-4.5, 0)\<close> and \<^verbatim>\<open>maxSpeed\<close> \<open>2.41f = 10108273 / 2\<^sup>2\<^sup>2\<close>, with a zero composed force, leaves
  the velocity update of lines 425-427 with the velocity \<open>(-10108274 / 2\<^sup>2\<^sup>2, 0)\<close>, of
  magnitude above its \<^verbatim>\<open>maxSpeed\<close>: the length 4.5 is above the limit, \<open>2.41f / 4.5\<close> rounds
  up, and the product with \<open>-4.5\<close> lies halfway between two binary32 values and rounds to
  the even one, the larger in magnitude.
\<close>

theorem Limit32_overshoot_counterexample:
  "maxSpeed ((newAgent (V2 100 100) (V2 (- (9 / 2)) 0) (round32 2.41) 0 SKYBLUE)\<lparr>maxForce := round32 0.14\<rparr>)
     < Length (vel (integrate32
         ((newAgent (V2 100 100) (V2 (- (9 / 2)) 0) (round32 2.41) 0 SKYBLUE)\<lparr>maxForce := round32 0.14\<rparr>)
         (V2 0 0)))"
proof -
  define M :: real where "M = 10108273 / 2 ^ 22"
  define C :: real where "C = 8985132 / 2 ^ 24"
  define X :: real where "X = 10108274 / 2 ^ 22"
  have m: "round32 2.41 = M"
    using round32_eval_up [of 1 "2.41"] by (simp add: roundTiesEven_def M_def)
  have m2: "round32 (241 / 100) = M" using m by simp
  have r45: "round32 (9 / 2) = 9 / 2"
    using round32_eval_up [of 2 "9 / 2"] by (simp add: roundTiesEven_def)
  have rsq: "round32 (81 / 4) = 81 / 4"
    using round32_eval_up [of 4 "81 / 4"] by (simp add: roundTiesEven_def)
  have c: "round32 (M / (9 / 2)) = C"
    using round32_eval_down [of "M / (9 / 2)" 1] by (simp add: roundTiesEven_def M_def C_def)
  have rx: "round32 ((9 / 2) * C) = X"
    using round32_eval_up [of 1 "(9 / 2) * C"] by (simp add: roundTiesEven_def C_def X_def)
  have f0: "0 \<le> round32 0.14" by (intro round32_nonneg) simp
  have v1: "Add32 (V2 (- (9 / 2)) 0) (Limit32 (V2 0 0) (round32 0.14)) = V2 (- (9 / 2)) 0"
  proof -
    have "round32 (- (9 / 2)) = - (9 / 2)" by (simp only: round32_minus r45)
    then show ?thesis by (simp only: Limit32_zero [OF f0] Add32_zero_right)
  qed
  have l: "Length32 (V2 (- (9 / 2)) 0) = 9 / 2"
  proof (rule Length32_axis)
    show "round32 (- (9 / 2) * - (9 / 2)) = 81 / 4" using rsq by simp
    show "round32 (81 / 4) = 81 / 4" by (rule rsq)
    show "sqrt (81 / 4) = 9 / 2" by (rule real_sqrt_unique) (simp_all add: power2_eq_square)
    show "round32 (9 / 2) = 9 / 2" by (rule r45)
  qed
  have gt: "M < 9 / 2" by (simp add: M_def)
  have "Limit32 (V2 (- (9 / 2)) 0) M = V2 (round32 (- (9 / 2) * round32 (M / (9 / 2)))) 0"
    using l gt by (rule Limit32_axis)
  also have "round32 (- (9 / 2) * round32 (M / (9 / 2))) = round32 (- ((9 / 2) * C))"
    by (simp only: c mult_minus_left)
  also have "\<dots> = - X" by (simp only: round32_minus rx)
  finally have v2: "Limit32 (V2 (- (9 / 2)) 0) M = V2 (- X) 0" .
  have "vel (integrate32
         ((newAgent (V2 100 100) (V2 (- (9 / 2)) 0) (round32 2.41) 0 SKYBLUE)\<lparr>maxForce := round32 0.14\<rparr>)
         (V2 0 0))
        = Limit32 (Add32 (V2 (- (9 / 2)) 0) (Limit32 (V2 0 0) (round32 0.14))) (round32 2.41)"
    by (simp add: integrate32_def appliedForce32_def newAgent_def Let_def del: divide_minus_left)
  also have "\<dots> = V2 (- X) 0" by (simp only: v1 m v2)
  finally have "Length (vel (integrate32
         ((newAgent (V2 100 100) (V2 (- (9 / 2)) 0) (round32 2.41) 0 SKYBLUE)\<lparr>maxForce := round32 0.14\<rparr>)
         (V2 0 0))) = X"
    by (simp add: Length_axis_x X_def)
  moreover have "maxSpeed ((newAgent (V2 100 100) (V2 (- (9 / 2)) 0) (round32 2.41) 0 SKYBLUE)\<lparr>maxForce := round32 0.14\<rparr>) = M"
    by (simp add: newAgent_def m2)
  moreover have "M < X" by (simp add: M_def X_def)
  ultimately show ?thesis by simp
qed

text \<open>
  C1, amended. For an agent with non-negative \<^verbatim>\<open>maxForce\<close> and \<^verbatim>\<open>maxSpeed\<close>, in both branches
  and for every composed force: the force added to the velocity is the composed force
  passed through \<^verbatim>\<open>Limit\<close> with \<^verbatim>\<open>maxForce\<close>, the new velocity is the sum passed through
  \<^verbatim>\<open>Limit\<close> with \<^verbatim>\<open>maxSpeed\<close>, and in binary32 the magnitude of the first is at most
  \<open>maxForce * slack32\<close> and that of the second at most \<open>maxSpeed * slack32\<close>, where
  \<open>slack32 \<le> 1 + 2\<^sup>-\<^sup>2\<^sup>1\<close>. The bounds \<^verbatim>\<open>maxForce\<close> and \<^verbatim>\<open>maxSpeed\<close> themselves can be exceeded
  by rounding.
\<close>

theorem clamp_up_to_rounding:
  assumes force: "0 \<le> maxForce a" and speed: "0 \<le> maxSpeed a"
  shows "Length (steerVec32 a steering) \<le> maxForce a * slack32 \<and>
         vel (singleIntegrate32 a steering)
           = Limit32 (Add32 (vel a) (steerVec32 a steering)) (maxSpeed a) \<and>
         Length (vel (singleIntegrate32 a steering)) \<le> maxSpeed a * slack32 \<and>
         Length (appliedForce32 a finalSteer) \<le> maxForce a * slack32 \<and>
         vel (integrate32 a finalSteer)
           = Limit32 (Add32 (vel a) (appliedForce32 a finalSteer)) (maxSpeed a) \<and>
         Length (vel (integrate32 a finalSteer)) \<le> maxSpeed a * slack32 \<and>
         slack32 \<le> 1 + 1 / 2 ^ 21"
proof -
  have f1: "Length (steerVec32 a steering) \<le> maxForce a * slack32"
    unfolding steerVec32_def using force by (rule Limit32_bound)
  have v1: "vel (singleIntegrate32 a steering)
           = Limit32 (Add32 (vel a) (steerVec32 a steering)) (maxSpeed a)"
    by (simp add: singleIntegrate32_def Let_def)
  have s1: "Length (vel (singleIntegrate32 a steering)) \<le> maxSpeed a * slack32"
    unfolding v1 using speed by (rule Limit32_bound)
  have f2: "Length (appliedForce32 a finalSteer) \<le> maxForce a * slack32"
    unfolding appliedForce32_def using force by (rule Limit32_bound)
  have v2: "vel (integrate32 a finalSteer)
           = Limit32 (Add32 (vel a) (appliedForce32 a finalSteer)) (maxSpeed a)"
    by (simp add: integrate32_def Let_def)
  have s2: "Length (vel (integrate32 a finalSteer)) \<le> maxSpeed a * slack32"
    unfolding v2 using speed by (rule Limit32_bound)
  show ?thesis using f1 v1 s1 f2 v2 s2 slack32_bounds(2) by blast
qed

theorem clamp_up_to_rounding_witness:
  "Length (steerVec32 ((newAgent (V2 500 400) (V2 (round32 0.05) 0) 3 0 ORANGE)\<lparr>maxForce := round32 0.12\<rparr>)
                      (V2 3 0))
     \<le> round32 0.12 * slack32 \<and>
   Length (vel (integrate32
         ((newAgent (V2 100 100) (V2 (- (9 / 2)) 0) (round32 2.41) 0 SKYBLUE)\<lparr>maxForce := round32 0.14\<rparr>)
         (V2 0 0))) \<le> round32 2.41 * slack32"
proof -
  let ?p = "(newAgent (V2 500 400) (V2 (round32 0.05) 0) 3 0 ORANGE)\<lparr>maxForce := round32 0.12\<rparr>"
  let ?a = "(newAgent (V2 100 100) (V2 (- (9 / 2)) 0) (round32 2.41) 0 SKYBLUE)\<lparr>maxForce := round32 0.14\<rparr>"
  have p: "0 \<le> maxForce ?p" "0 \<le> maxSpeed ?p"
    by (simp_all add: newAgent_def round32_nonneg)
  have a: "0 \<le> maxForce ?a" "0 \<le> maxSpeed ?a"
    by (simp_all add: newAgent_def round32_nonneg)
  have "Length (steerVec32 ?p (V2 3 0)) \<le> maxForce ?p * slack32"
    using clamp_up_to_rounding [OF p, of "V2 3 0" "V2 0 0"] by blast
  moreover have "Length (vel (integrate32 ?a (V2 0 0))) \<le> maxSpeed ?a * slack32"
    using clamp_up_to_rounding [OF a, of "V2 0 0" "V2 0 0"] by blast
  ultimately show ?thesis by (simp add: newAgent_def)
qed

subsection \<open>Sequential update\<close>









end
